(* ===== verification/Prelude.thy ===== *)
theory Prelude
  imports Main "HOL-Library.Word"
begin

text \<open>
  Shared vocabulary of the development: the machine-integer types of the C sources, the faults
  that stand for undefined behaviour, the error monad in which fallible code is written, the
  heap of C objects reached through pointers, and the generic lemmas the components use.
\<close>

unbundle bit_operations_syntax

section \<open>Machine integers\<close>

type_synonym u8 = "8 word"
type_synonym u16 = "16 word"
type_synonym u32 = "32 word"
type_synonym u64 = "64 word"

section \<open>Faults and the error monad\<close>

text \<open>
  A fault is a step the C or C++ standard leaves undefined, or one after which the program does
  not go on: a load or store through a null pointer, through a pointer to an object that is not
  allocated (never was, or was freed), a second \<^verbatim>\<open>free\<close>, an array index past the end, a signed
  overflow, a library call outside its documented preconditions, the end of a function that should
  have returned a value, a failed assertion. Where such a step commonly does something all the same, what
  it does is an argument of the model, about which nothing is assumed.
\<close>

datatype fault = NullDeref | DanglingDeref | DoubleFree | OutOfBounds | SignedOverflow | LibraryMisuse | MissingReturn | AssertionFailed

type_synonym 'a result = "fault + 'a"

definition bindE :: "'e + 'a \<Rightarrow> ('a \<Rightarrow> 'e + 'b) \<Rightarrow> 'e + 'b" where
  "bindE m f = (case m of Inl e \<Rightarrow> Inl e | Inr x \<Rightarrow> f x)"

lemma bindE_Inl [simp]: "bindE (Inl e) f = Inl e"
  and bindE_Inr [simp]: "bindE (Inr x) f = f x"
  by (simp_all add: bindE_def)

lemma bindE_eq_Inr: "bindE m f = Inr y \<longleftrightarrow> (\<exists>x. m = Inr x \<and> f x = Inr y)"
  by (cases m) simp_all

lemma bindE_eq_Inl: "bindE m f = Inl e \<longleftrightarrow> m = Inl e \<or> (\<exists>x. m = Inr x \<and> f x = Inl e)"
  by (cases m) simp_all

lemma bindE_assoc: "bindE (bindE m f) g = bindE m (\<lambda>x. bindE (f x) g)"
  by (cases m) simp_all

lemma bindE_cong [fundef_cong]:
  "m = m' \<Longrightarrow> (\<And>x. m' = Inr x \<Longrightarrow> f x = f' x) \<Longrightarrow> bindE m f = bindE m' f'"
  by (cases m') simp_all

text \<open>A loop over a range of indices whose body may fail.\<close>

primrec foldE :: "('x \<Rightarrow> 's \<Rightarrow> 'e + 's) \<Rightarrow> 'x list \<Rightarrow> 's \<Rightarrow> 'e + 's" where
  "foldE f [] s = Inr s"
| "foldE f (x # xs) s = bindE (f x s) (foldE f xs)"

lemma foldE_append: "foldE f (xs @ ys) s = bindE (foldE f xs s) (foldE f ys)"
proof (induction xs arbitrary: s)
  case Nil
  then show ?case by simp
next
  case (Cons x xs)
  then show ?case by (cases "f x s") simp_all
qed

lemma bindE_foldE_Nil [simp]: "bindE r (foldE f []) = r"
  by (cases r) simp_all

lemma foldE_invariant:
  assumes "foldE f xs s = Inr s'" and "P s"
    and step: "\<And>x s s'. x \<in> set xs \<Longrightarrow> P s \<Longrightarrow> f x s = Inr s' \<Longrightarrow> P s'"
  shows "P s'"
  using assms
proof (induction xs arbitrary: s)
  case Nil
  then show ?case by simp
next
  case (Cons x xs)
  then obtain s1 where s1: "f x s = Inr s1" "foldE f xs s1 = Inr s'" by (auto simp: bindE_eq_Inr)
  with Cons.prems have "P s1" by (meson list.set_intros(1))
  with s1 Cons show ?case by (meson list.set_intros(2))
qed

lemma foldE_total:
  assumes "P s" and "\<And>x s. x \<in> set xs \<Longrightarrow> P s \<Longrightarrow> \<exists>s'. f x s = Inr s' \<and> P s'"
  shows "\<exists>s'. foldE f xs s = Inr s' \<and> P s'"
  using assms
proof (induction xs arbitrary: s)
  case Nil
  then show ?case by simp
next
  case (Cons x xs)
  then obtain s1 where "f x s = Inr s1" "P s1" by (meson list.set_intros(1))
  with Cons show ?case by simp
qed

text \<open>Ways a program stops short of its next statement; the state is the one it stops in.\<close>

datatype 's halt = Fault fault | Exit int 's | Return int 's

definition lift_fault :: "'a result \<Rightarrow> 's halt + 'a" where
  "lift_fault r = (case r of Inl f \<Rightarrow> Inl (Fault f) | Inr x \<Rightarrow> Inr x)"

lemma lift_fault_simps [simp]: "lift_fault (Inl f) = Inl (Fault f)" "lift_fault (Inr x) = Inr x"
  by (simp_all add: lift_fault_def)

lemma lift_fault_eq_Inr: "lift_fault r = Inr x \<longleftrightarrow> r = Inr x"
  by (cases r) simp_all

named_theorems fault_simps \<open>equations of the loads, stores and releases on a valid pointer\<close>
named_theorems rep_intros \<open>introduction rules of the representation invariants\<close>

section \<open>Pointers\<close>

text \<open>
  A pointer is an address, 0 the null pointer; the heap of one kind of object is a partial map
  from addresses, \<open>None\<close> where no object is allocated.
\<close>

type_synonym addr = nat

abbreviation (input) null :: addr where
  "null \<equiv> 0"

definition load :: "(addr \<rightharpoonup> 'o) \<Rightarrow> addr \<Rightarrow> 'o result" where
  "load h p = (if p = null then Inl NullDeref
     else case h p of None \<Rightarrow> Inl DanglingDeref | Some x \<Rightarrow> Inr x)"

definition modify :: "(addr \<rightharpoonup> 'o) \<Rightarrow> addr \<Rightarrow> ('o \<Rightarrow> 'o) \<Rightarrow> (addr \<rightharpoonup> 'o) result" where
  "modify h p f = bindE (load h p) (\<lambda>x. Inr (h(p \<mapsto> f x)))"

definition release :: "(addr \<rightharpoonup> 'o) \<Rightarrow> addr \<Rightarrow> (addr \<rightharpoonup> 'o) result" where
  "release h p = (if p = null then Inr h
     else case h p of None \<Rightarrow> Inl DoubleFree | Some _ \<Rightarrow> Inr (h(p := None)))"

lemma load_null [simp]: "load h null = Inl NullDeref"
  by (simp add: load_def)

lemma load_valid [fault_simps]: "p \<noteq> null \<Longrightarrow> h p = Some x \<Longrightarrow> load h p = Inr x"
  by (simp add: load_def)

lemma load_eq_Inr: "load h p = Inr x \<longleftrightarrow> p \<noteq> null \<and> h p = Some x"
  by (simp add: load_def split: option.splits)

lemma modify_null [simp]: "modify h null f = Inl NullDeref"
  by (simp add: modify_def)

lemma modify_valid [fault_simps]:
  "p \<noteq> null \<Longrightarrow> h p = Some x \<Longrightarrow> modify h p f = Inr (h(p \<mapsto> f x))"
  by (simp add: modify_def load_valid)

lemma release_valid [fault_simps]:
  "p \<noteq> null \<Longrightarrow> h p = Some x \<Longrightarrow> release h p = Inr (h(p := None))"
  by (simp add: release_def)

section \<open>Lists\<close>

lemma distinct_snoc_iff: "distinct (xs @ [x]) \<longleftrightarrow> distinct xs \<and> x \<notin> set xs"
  by auto

lemma split_list_unique:
  "distinct (xs @ x # ys) \<Longrightarrow> xs @ x # ys = xs' @ x # ys' \<Longrightarrow> xs = xs' \<and> ys = ys'"
  by (metis append_Cons_eq_iff distinct.simps(2) distinct_append not_distinct_conv_prefix)

lemma list_all_update: "list_all P xs \<Longrightarrow> (i < length xs \<Longrightarrow> P y) \<Longrightarrow> list_all P (xs[i := y])"
  by (cases "i < length xs") (auto simp: list_all_length nth_list_update)

section \<open>First-match search in a vector\<close>

text \<open>
  The search loops of the sources share one contract: walk the vector by index, stop at the first
  element with the key, fall off the end otherwise. Clients learn where the search stops, that
  appending behind a hit changes nothing, and that only the keys matter.
\<close>

locale keyed_vector =
  fixes key :: "'e \<Rightarrow> 'k"
    and search :: "'k \<Rightarrow> nat \<Rightarrow> 'e list \<Rightarrow> nat option"
  assumes search_Nil: "search k i [] = None"
    and search_Cons: "search k i (x # xs) = (if k = key x then Some i else search k (Suc i) xs)"
begin

lemma search_shift: "search k i xs = map_option (\<lambda>j. i + j) (search k 0 xs)"
proof (induction xs arbitrary: i)
  case Nil
  then show ?case by (simp add: search_Nil)
next
  case (Cons x xs)
  have "search k (Suc i) xs = map_option (\<lambda>j. Suc i + j) (search k 0 xs)" for i by (rule Cons)
  then show ?case by (simp add: search_Cons option.map_comp o_def)
qed

lemma search_step: "search k 0 (x # xs) = (if k = key x then Some 0 else map_option Suc (search k 0 xs))"
  by (simp add: search_Cons search_shift [of k "Suc 0"])

lemma search_None: "search k 0 xs = None \<longleftrightarrow> k \<notin> key ` set xs"
  by (induction xs) (auto simp: search_Nil search_step)

lemma search_Some:
  "search k 0 xs = Some j \<longleftrightarrow> j < length xs \<and> key (xs ! j) = k \<and> (\<forall>i < j. key (xs ! i) \<noteq> k)"
proof (induction xs arbitrary: j)
  case Nil
  then show ?case by (simp add: search_Nil)
next
  case (Cons x xs)
  show ?case
  proof (cases j)
    case 0
    then show ?thesis by (auto simp: search_step)
  next
    case (Suc m)
    then show ?thesis using Cons [of m] by (auto simp: search_step All_less_Suc2)
  qed
qed

lemma search_hit: "k \<in> key ` set xs \<Longrightarrow> \<exists>j. search k 0 xs = Some j"
  using search_None [of k xs] by blast

lemma search_SomeD: "search k 0 xs = Some j \<Longrightarrow> k \<in> key ` set xs"
  using search_None [of k xs] by auto

lemma search_append:
  "search k 0 (xs @ ys) = (case search k 0 xs of Some j \<Rightarrow> Some j
     | None \<Rightarrow> map_option (\<lambda>j. length xs + j) (search k 0 ys))"
proof (induction xs)
  case Nil
  show ?case by (cases "search k 0 ys") (simp_all add: search_Nil)
next
  case (Cons x xs)
  then show ?case by (cases "search k 0 ys") (simp_all add: search_step split: option.split)
qed

lemma search_key_cong: "map key xs = map key ys \<Longrightarrow> search k 0 xs = search k 0 ys"
proof (induction xs arbitrary: ys)
  case Nil
  then show ?case by (simp add: search_Nil)
next
  case (Cons x xs)
  then obtain y ys' where "ys = y # ys'" "key y = key x" "map key xs = map key ys'"
    by (metis list.map_disc_iff list.simps(9) list.exhaust list.inject)
  with Cons.IH [of ys'] show ?case by (simp add: search_step)
qed

end

end
