(* ===== verification/Join_Stage.thy ===== *)
theory Join_Stage
  imports Prelude
begin

text \<open>
  The commissioning word of a node, \<^verbatim>\<open>Node::mJoinStage\<close> of
  \<^verbatim>\<open>devices_struct/DeviceDefine.h\<close>: the join stage in bits 24 to 31, the status bits of the
  stage in bits 8 to 15, the retry count in bits 0 to 7. The record holds the two fields of
  \<^verbatim>\<open>class Node\<close> that these operations touch; the node of \<^verbatim>\<open>Device_Model\<close> extends it.
\<close>

section \<open>Stages and status bits\<close>

datatype JOINSTAGE_E =
    JOIN_STAGE_ANNOUNCE
  | JOIN_STAGE_BASIC_INFO_SUBCRIBE
  | JOIN_STAGE_UTILITY_READ
  | JOIN_STAGE_BASIC_INFO_READ
  | JOIN_STAGE_APP_INFO_READ
  | JOIN_STAGE_APP_SUBCRIBE
  | JOIN_STAGE_SUCCESS
  | JOIN_STAGE_FINISH

primrec stage_code :: "JOINSTAGE_E \<Rightarrow> u8" where
  "stage_code JOIN_STAGE_ANNOUNCE = 0x00"
| "stage_code JOIN_STAGE_BASIC_INFO_SUBCRIBE = 0x01"
| "stage_code JOIN_STAGE_UTILITY_READ = 0x02"
| "stage_code JOIN_STAGE_BASIC_INFO_READ = 0x03"
| "stage_code JOIN_STAGE_APP_INFO_READ = 0x04"
| "stage_code JOIN_STAGE_APP_SUBCRIBE = 0x05"
| "stage_code JOIN_STAGE_SUCCESS = 0x06"
| "stage_code JOIN_STAGE_FINISH = 0x07"

definition ANNOUNCE_STATUS :: "u8 list" where
  \<comment> \<open>STARUP, SHUTDOWN, LEAVE, REACHABLE\<close>
  "ANNOUNCE_STATUS = [0x01, 0x02, 0x04, 0x08]"

definition ANNOUNCE_STATUS_FULL :: u8 where
  "ANNOUNCE_STATUS_FULL = 0x0F"

definition SUBCRIBE_STATUS :: "u8 list" where
  \<comment> \<open>DEVICETYPE, PARTLIST, CLIENTCLUSETR, SERVERCLUSTER\<close>
  "SUBCRIBE_STATUS = [0x01, 0x02, 0x04, 0x08]"

definition SUBCRIBE_STATUS_FULL :: u8 where
  "SUBCRIBE_STATUS_FULL = 0xFF"

definition UTILITY_STATUS :: "u8 list" where
  \<comment> \<open>Location, InteractionModelVersion, VendorName, VendorID, ProductName, ProductID, NodeLabel\<close>
  "UTILITY_STATUS = [0x01, 0x02, 0x04, 0x08, 0x10, 0x20, 0x40]"

definition UTILITY_STATUS_FULL :: u8 where
  "UTILITY_STATUS_FULL = 0x7F"

section \<open>The packed word and its operations\<close>

record join_state =
  mJoinStage :: u32
  mTimeStamp :: int

definition GetJoinStage :: "('a) join_state_scheme \<Rightarrow> u8" where
  "GetJoinStage n = ucast (drop_bit 24 (mJoinStage n AND 0xFF000000))"

definition SetJoinStage :: "u8 \<Rightarrow> ('a) join_state_scheme \<Rightarrow> ('a) join_state_scheme" where
  "SetJoinStage stage n = n\<lparr>mJoinStage := push_bit 24 (ucast stage), mTimeStamp := 0\<rparr>"

definition GetJoinStatus :: "('a) join_state_scheme \<Rightarrow> u8" where
  "GetJoinStatus n = ucast (drop_bit 8 (mJoinStage n AND 0x0000FF00))"

definition SetJoinStatus :: "u8 \<Rightarrow> ('a) join_state_scheme \<Rightarrow> ('a) join_state_scheme" where
  "SetJoinStatus status n =
     n\<lparr>mJoinStage := mJoinStage n OR (0x0000FF00 AND push_bit 8 (ucast status))\<rparr>"

definition GetJoinReCount :: "('a) join_state_scheme \<Rightarrow> u8" where
  "GetJoinReCount n = ucast (mJoinStage n AND 0x000000FF)"

definition JoinReCountIncrease :: "('a) join_state_scheme \<Rightarrow> ('a) join_state_scheme" where
  "JoinReCountIncrease n =
     (let cnt = ucast (mJoinStage n AND 0x000000FF) :: u8
      in if cnt < 0xff then n\<lparr>mJoinStage := mJoinStage n + 1\<rparr> else n)"

text \<open>A node's commissioning history: the mutators the join state machine calls, in order.\<close>

datatype join_op = OpStage u8 | OpStatus u8 | OpRetry

primrec join_step :: "join_op \<Rightarrow> ('a) join_state_scheme \<Rightarrow> ('a) join_state_scheme" where
  "join_step (OpStage s) n = SetJoinStage s n"
| "join_step (OpStatus s) n = SetJoinStatus s n"
| "join_step OpRetry n = JoinReCountIncrease n"

definition join_run :: "join_op list \<Rightarrow> ('a) join_state_scheme \<Rightarrow> ('a) join_state_scheme" where
  "join_run ops n = fold join_step ops n"

section \<open>Abstract specification: three independent fields\<close>

record join_view =
  jv_stage :: u8
  jv_status :: u8
  jv_count :: nat

definition view :: "('a) join_state_scheme \<Rightarrow> join_view" where
  "view n = \<lparr>jv_stage = GetJoinStage n, jv_status = GetJoinStatus n, jv_count = unat (GetJoinReCount n)\<rparr>"

primrec spec_step :: "join_op \<Rightarrow> join_view \<Rightarrow> join_view" where
  "spec_step (OpStage s) v = \<lparr>jv_stage = s, jv_status = 0, jv_count = 0\<rparr>"
| "spec_step (OpStatus s) v = v\<lparr>jv_status := jv_status v OR s\<rparr>"
| "spec_step OpRetry v = v\<lparr>jv_count := min 255 (jv_count v + 1)\<rparr>"

section \<open>The fields as slices of the word\<close>

lemma byte_masks:
  "(0xFF000000 :: u32) = push_bit 24 (mask 8)"
  "(0x0000FF00 :: u32) = push_bit 8 (mask 8)"
  "(0x000000FF :: u32) = mask 8"
  by (simp_all add: mask_eq_exp_minus_1)

lemma GetJoinStage_slice: "GetJoinStage n = ucast (drop_bit 24 (mJoinStage n))"
  unfolding GetJoinStage_def byte_masks
  by (rule bit_word_eqI) (auto simp: bit_simps)

lemma GetJoinStatus_slice: "GetJoinStatus n = ucast (drop_bit 8 (mJoinStage n))"
  unfolding GetJoinStatus_def byte_masks
  by (rule bit_word_eqI) (auto simp: bit_simps)

lemma GetJoinReCount_slice: "GetJoinReCount n = ucast (mJoinStage n)"
  unfolding GetJoinReCount_def byte_masks
  by (rule bit_word_eqI) (auto simp: bit_simps)

lemmas join_slices = GetJoinStage_slice GetJoinStatus_slice GetJoinReCount_slice

lemma SetJoinStatus_slices:
  "GetJoinStatus (SetJoinStatus s n) = GetJoinStatus n OR s"
  "GetJoinStage (SetJoinStatus s n) = GetJoinStage n"
  "GetJoinReCount (SetJoinStatus s n) = GetJoinReCount n"
  unfolding join_slices SetJoinStatus_def byte_masks
  by (rule bit_word_eqI, force simp: bit_simps)+

lemma unat_low_byte: "unat (ucast (w :: u32) :: u8) = unat w mod 256"
  by (simp add: unsigned_ucast_eq take_bit_eq_mod)

text \<open>
  Incrementing the word below a saturated low byte carries nothing into the bytes above, and
  cannot wrap.
\<close>

lemma unat_Suc_low_byte:
  assumes "unat (w :: u32) mod 256 < 255"
  shows "unat (w + 1) = unat w + 1"
proof -
  have "unat w < 4294967296" using unsigned_less [of w] by simp
  moreover from assms have "unat w \<noteq> 4294967295" by (intro notI) simp
  ultimately have "unat w + 1 < 4294967296" by linarith
  then show ?thesis by (simp add: unat_word_ariths)
qed

lemma drop_bit_Suc_low_byte:
  assumes "unat (w :: u32) mod 256 < 255" and "8 \<le> k"
  shows "drop_bit k (w + 1) = drop_bit k w"
proof -
  have "drop_bit 8 (w + 1) = drop_bit 8 w"
  proof (rule word_unat_eq_iff [THEN iffD2])
    have "(unat w + 1) div 256 = unat w div 256" using assms(1) by (simp add: div_Suc mod_Suc)
    then show "unat (drop_bit 8 (w + 1)) = unat (drop_bit 8 w)"
      by (simp add: drop_bit_eq_div unat_div_distrib unat_Suc_low_byte [OF assms(1)])
  qed
  then have "drop_bit (k - 8) (drop_bit 8 (w + 1)) = drop_bit (k - 8) (drop_bit 8 w)" by simp
  with assms(2) show ?thesis by simp
qed

lemma low_byte_Suc:
  assumes "unat (w :: u32) mod 256 < 255"
  shows "unat (ucast (w + 1) :: u8) = unat (ucast w :: u8) + 1"
proof -
  have "(unat w + 1) mod 256 = unat w mod 256 + 1" using assms by (simp add: mod_Suc)
  then show ?thesis by (simp add: unat_low_byte unat_Suc_low_byte [OF assms])
qed

lemma count_guard: "(ucast (w AND 0x000000FF :: u32) :: u8) < 0xff \<longleftrightarrow> unat w mod 256 < 255"
proof -
  have "(ucast (w AND 0x000000FF) :: u8) = ucast w"
    unfolding byte_masks by (rule bit_word_eqI) (auto simp: bit_simps)
  then show ?thesis by (simp add: word_less_nat_alt unat_low_byte)
qed

section \<open>Refinement\<close>

lemma view_SetJoinStage: "view (SetJoinStage s n) = spec_step (OpStage s) (view n)"
proof -
  have "ucast (drop_bit 24 (push_bit 24 (ucast s) :: u32)) = s"
    and "ucast (drop_bit 8 (push_bit 24 (ucast s) :: u32)) = (0 :: u8)"
    and "ucast (push_bit 24 (ucast s) :: u32) = (0 :: u8)"
    by (rule bit_word_eqI, force simp: bit_simps)+
  then show ?thesis by (simp add: view_def join_slices SetJoinStage_def)
qed

lemma view_SetJoinStatus: "view (SetJoinStatus s n) = spec_step (OpStatus s) (view n)"
  by (simp add: view_def SetJoinStatus_slices)

lemma view_JoinReCountIncrease: "view (JoinReCountIncrease n) = spec_step OpRetry (view n)"
proof (cases "unat (mJoinStage n) mod 256 < 255")
  case True
  then have "unat (ucast (mJoinStage n) :: u8) < 255" by (simp add: unat_low_byte)
  with True show ?thesis
    by (simp add: view_def join_slices JoinReCountIncrease_def count_guard Let_def
        drop_bit_Suc_low_byte low_byte_Suc)
next
  case False
  moreover have "unat (mJoinStage n) mod 256 < 256" by simp
  ultimately have "unat (ucast (mJoinStage n) :: u8) = 255" by (simp add: unat_low_byte)
  with False show ?thesis
    by (simp add: view_def join_slices JoinReCountIncrease_def count_guard)
qed

lemma view_join_step: "view (join_step oper n) = spec_step oper (view n)"
  by (cases oper)
    (simp_all only: join_step.simps view_SetJoinStage view_SetJoinStatus view_JoinReCountIncrease)

text \<open>
  C1. Whatever sequence of \<^verbatim>\<open>SetJoinStage\<close>, \<^verbatim>\<open>SetJoinStatus\<close> and \<^verbatim>\<open>JoinReCountIncrease\<close> a node
  goes through, starting from any word, the three getters read what three independent fields
  would hold: a new stage resets status and retry count, status bits accumulate, the retry count
  saturates at 255, and no operation leaks into a field that is not its own.
\<close>

theorem join_run_refines: "view (join_run ops n) = fold spec_step ops (view n)"
  by (induction ops arbitrary: n) (simp_all add: join_run_def view_join_step)

text \<open>A stage change clears the time stamp, so that the next step is taken at once; nothing
  else of the history changes it.\<close>

theorem join_run_timestamp:
  "mTimeStamp (join_run ops n) = (if \<exists>s. OpStage s \<in> set ops then 0 else mTimeStamp n)"
proof (induction ops arbitrary: n)
  case Nil
  then show ?case by (simp add: join_run_def)
next
  case (Cons x ops)
  then show ?case
    by (cases x) (auto simp: join_run_def SetJoinStage_def SetJoinStatus_def JoinReCountIncrease_def Let_def)
qed

section \<open>Completion of a stage\<close>

lemma bit_fold_or: "bit (fold (OR) xs (a :: u8)) k \<longleftrightarrow> bit a k \<or> (\<exists>x \<in> set xs. bit x k)"
  by (induction xs arbitrary: a) (auto simp: bit_or_iff or.commute)

lemma fold_SetJoinStatus:
  "GetJoinStatus (fold SetJoinStatus sts n) = fold (OR) sts (GetJoinStatus n)"
  by (induction sts arbitrary: n) (simp_all add: SetJoinStatus_slices or.commute)

lemma GetJoinStatus_SetJoinStage: "GetJoinStatus (SetJoinStage s n) = 0"
  using arg_cong [OF view_SetJoinStage, of jv_status] by (simp add: view_def)

text \<open>
  The events of a stage are the single bits below position \<open>k\<close>; the accumulated status is the full
  mask exactly when every one of them has been seen.
\<close>

lemma flags_full_iff:
  assumes "set sts \<subseteq> (\<lambda>i. push_bit i 1) ` {..<k}" and "k \<le> 8"
  shows "fold (OR) sts (0 :: u8) = mask k \<longleftrightarrow> (\<lambda>i. push_bit i 1) ` {..<k} \<subseteq> set sts"
proof
  assume full: "fold (OR) sts (0 :: u8) = mask k"
  show "(\<lambda>i. push_bit i 1) ` {..<k} \<subseteq> set sts"
  proof
    fix x :: u8
    assume "x \<in> (\<lambda>i. push_bit i 1) ` {..<k}"
    then obtain i where i: "i < k" "x = push_bit i 1" by auto
    with assms(2) have "bit (fold (OR) sts (0 :: u8)) i" by (simp add: full bit_simps)
    then obtain y where y: "y \<in> set sts" "bit y i" by (auto simp: bit_fold_or)
    with assms(1) obtain j where "y = push_bit j 1" by auto
    with y i show "x \<in> set sts" by (auto simp: bit_simps)
  qed
next
  assume all: "(\<lambda>i. push_bit i 1) ` {..<k} \<subseteq> set sts"
  show "fold (OR) sts (0 :: u8) = mask k"
  proof (rule bit_word_eqI)
    fix i
    assume "i < LENGTH(8)"
    moreover have "\<exists>x \<in> set sts. bit x i" if "i < k"
      using all that assms(2) by (intro bexI [of _ "push_bit i 1"]) (auto simp: bit_simps)
    ultimately show "bit (fold (OR) sts (0 :: u8)) i = bit (mask k :: u8) i"
      using assms(1) by (auto simp: bit_fold_or bit_simps)
  qed
qed

lemma flag_lists:
  "set ANNOUNCE_STATUS = (\<lambda>i. push_bit i 1) ` {..<4}"
  "set SUBCRIBE_STATUS = (\<lambda>i. push_bit i 1) ` {..<4}"
  "set UTILITY_STATUS = (\<lambda>i. push_bit i 1) ` {..<7}"
  by (simp_all add: ANNOUNCE_STATUS_def SUBCRIBE_STATUS_def UTILITY_STATUS_def
      lessThan_Suc numeral_eq_Suc insert_commute)

lemma full_masks:
  "ANNOUNCE_STATUS_FULL = mask 4"
  "UTILITY_STATUS_FULL = mask 7"
  by (simp_all add: ANNOUNCE_STATUS_FULL_def UTILITY_STATUS_FULL_def mask_eq_exp_minus_1)

text \<open>
  Completion of a stage: events reported in any order and with any repetitions drive the status to
  \<^verbatim>\<open>JOIN_STAGE_ANNOUNCE_STATUS_FULL\<close> exactly when all four announce events (start up, shut down,
  leave, reachable) have been recorded, and to \<^verbatim>\<open>JOIN_STAGE_UTILITY_READ_STATUS_FULL\<close> exactly when
  all seven basic-information attributes have been read.
\<close>

theorem stage_complete:
  assumes "set as \<subseteq> set ANNOUNCE_STATUS" "set us \<subseteq> set UTILITY_STATUS"
  shows "(GetJoinStatus (fold SetJoinStatus as (SetJoinStage (stage_code JOIN_STAGE_ANNOUNCE) n))
      = ANNOUNCE_STATUS_FULL \<longleftrightarrow> set ANNOUNCE_STATUS \<subseteq> set as) \<and>
    (GetJoinStatus (fold SetJoinStatus us (SetJoinStage (stage_code JOIN_STAGE_UTILITY_READ) n))
      = UTILITY_STATUS_FULL \<longleftrightarrow> set UTILITY_STATUS \<subseteq> set us)"
  using assms flags_full_iff [of as 4] flags_full_iff [of us 7]
  by (simp only: fold_SetJoinStatus GetJoinStatus_SetJoinStage flag_lists full_masks)

theorem stage_complete_witness:
  "GetJoinStatus (fold SetJoinStatus [0x08, 0x02, 0x08, 0x01, 0x04]
      (SetJoinStage (stage_code JOIN_STAGE_ANNOUNCE) \<lparr>mJoinStage = 0xDEADBEEF, mTimeStamp = 7\<rparr>)) = ANNOUNCE_STATUS_FULL \<and>
   GetJoinStatus (fold SetJoinStatus [0x01, 0x02, 0x04, 0x08, 0x20, 0x40]
      (SetJoinStage (stage_code JOIN_STAGE_UTILITY_READ) \<lparr>mJoinStage = 0xDEADBEEF, mTimeStamp = 7\<rparr>)) \<noteq> UTILITY_STATUS_FULL"
  using stage_complete [of "[0x08, 0x02, 0x08, 0x01, 0x04]" "[0x01, 0x02, 0x04, 0x08, 0x20, 0x40]"
      "\<lparr>mJoinStage = 0xDEADBEEF, mTimeStamp = 7\<rparr>"]
  by (simp add: ANNOUNCE_STATUS_def UTILITY_STATUS_def)

text \<open>
  In the subscribe stage the four defined status bits never reach
  \<^verbatim>\<open>JOIN_STAGE_BASIC_INFO_SUBCRIBE_STATUS_FULL\<close>: the constant asks for all eight bits, so a
  dispatcher that waits for it never leaves the stage.
\<close>

theorem subscribe_never_full:
  assumes "set sts \<subseteq> set SUBCRIBE_STATUS"
  shows "GetJoinStatus (fold SetJoinStatus sts (SetJoinStage s n)) \<noteq> SUBCRIBE_STATUS_FULL"
proof
  assume "GetJoinStatus (fold SetJoinStatus sts (SetJoinStage s n)) = SUBCRIBE_STATUS_FULL"
  then have "bit (fold (OR) sts (0 :: u8)) 7"
    by (simp add: fold_SetJoinStatus GetJoinStatus_SetJoinStage SUBCRIBE_STATUS_FULL_def bit_numeral_rec)
  with assms show False by (auto simp: bit_fold_or flag_lists bit_simps)
qed

theorem subscribe_never_full_witness:
  "GetJoinStatus (fold SetJoinStatus SUBCRIBE_STATUS
     (SetJoinStage 1 \<lparr>mJoinStage = 0, mTimeStamp = 7\<rparr>)) \<noteq> SUBCRIBE_STATUS_FULL"
  using subscribe_never_full [of SUBCRIBE_STATUS] by simp

end
