(* ===== verification/Device_Model.thy ===== *)
theory Device_Model
  imports Join_Stage
begin

text \<open>
  The data model of a commissioned device, \<^verbatim>\<open>devices_struct/DeviceDefine.h\<close>: attributes inside
  clusters inside endpoints inside a node. The identifier types come from the CHIP SDK; the code
  only copies them and compares them for equality, at the widths the SDK documents. A
  \<^verbatim>\<open>std::vector\<close> is a list; a pointer into a vector is the index of the element; a null pointer
  is \<open>None\<close>. Log lines (\<^verbatim>\<open>PR_ERR\<close>) are not part of the state.
\<close>

type_synonym AttributeId = u32
type_synonym ClusterId = u32
type_synonym EventNumber = u64
type_synonym EndpointId = u16
type_synonym DeviceTypeId = u32
type_synonym NodeId = u64
type_synonym FabricId = u64
type_synonym EmberAfAttributeType = u8
type_synonym EmberAfClusterMask = u8

section \<open>Attributes\<close>

record Attribute =
  mAttributeId :: AttributeId
  mAttributeType :: EmberAfAttributeType
  mAttributeVal :: string

definition new_Attribute :: "AttributeId \<Rightarrow> EmberAfAttributeType \<Rightarrow> Attribute" where
  \<comment> \<open>a \<^verbatim>\<open>std::string\<close> member without an initialiser is the empty string\<close>
  "new_Attribute inAttrId ty = \<lparr>mAttributeId = inAttrId, mAttributeType = ty, mAttributeVal = []\<rparr>"

definition new_Attribute_data :: "AttributeId \<Rightarrow> EmberAfAttributeType \<Rightarrow> string \<Rightarrow> Attribute" where
  "new_Attribute_data inAttrId ty inAttributeData =
     \<lparr>mAttributeId = inAttrId, mAttributeType = ty, mAttributeVal = inAttributeData\<rparr>"

section \<open>Clusters\<close>

record Cluster =
  mClusterId :: ClusterId
  mMask :: EmberAfClusterMask
  mAttributes :: "Attribute list"

definition new_Cluster :: "ClusterId \<Rightarrow> EmberAfClusterMask \<Rightarrow> Cluster" where
  "new_Cluster inClusterId msk = \<lparr>mClusterId = inClusterId, mMask = msk, mAttributes = []\<rparr>"

text \<open>The loop over \<^verbatim>\<open>mAttributes\<close>: overwrite the value of the first match, else append.\<close>

fun AddOrUpdate_loop ::
  "AttributeId \<Rightarrow> EmberAfAttributeType \<Rightarrow> string \<Rightarrow> Attribute list \<Rightarrow> Attribute list" where
  "AddOrUpdate_loop inAttrId datatyp val [] = [new_Attribute_data inAttrId datatyp val]"
| "AddOrUpdate_loop inAttrId datatyp val (it # rest) =
     (if inAttrId = mAttributeId it then it\<lparr>mAttributeVal := val\<rparr> # rest
      else it # AddOrUpdate_loop inAttrId datatyp val rest)"

definition AddOrUpdateAttributeData ::
  "AttributeId \<Rightarrow> EmberAfAttributeType \<Rightarrow> string \<Rightarrow> Cluster \<Rightarrow> int \<times> Cluster" where
  "AddOrUpdateAttributeData inAttrId datatyp val c =
     (0, c\<lparr>mAttributes := AddOrUpdate_loop inAttrId datatyp val (mAttributes c)\<rparr>)"

definition AddOrUpdateAttribute :: "Attribute option \<Rightarrow> Cluster \<Rightarrow> (int \<times> Cluster) result" where
  "AddOrUpdateAttribute inAttrData c = (case inAttrData of
     None \<Rightarrow> Inl NullDeref
   | Some a \<Rightarrow> Inr (AddOrUpdateAttributeData (mAttributeId a) (mAttributeType a) (mAttributeVal a) c))"

fun FindAttribute_loop :: "AttributeId \<Rightarrow> nat \<Rightarrow> Attribute list \<Rightarrow> nat option" where
  "FindAttribute_loop inAttributeId i [] = None"
| "FindAttribute_loop inAttributeId i (a # rest) =
     (if inAttributeId = mAttributeId a then Some i else FindAttribute_loop inAttributeId (Suc i) rest)"

definition FindAttributeData :: "AttributeId \<Rightarrow> Cluster \<Rightarrow> nat option" where
  "FindAttributeData inAttributeId c = FindAttribute_loop inAttributeId 0 (mAttributes c)"

section \<open>Endpoints\<close>

record EndpointType =
  mEndpointNumber :: EventNumber
  mDevicetypes :: "DeviceTypeId list"
  mClusters :: "Cluster list"

definition new_EndpointType :: "EventNumber \<Rightarrow> EndpointType" where
  "new_EndpointType ep = \<lparr>mEndpointNumber = ep, mDevicetypes = [], mClusters = []\<rparr>"

fun CreateCluster_loop :: "EmberAfClusterMask \<Rightarrow> ClusterId list \<Rightarrow> Cluster list \<Rightarrow> Cluster list" where
  "CreateCluster_loop msk [] cs = cs"
| "CreateCluster_loop msk (it # rest) cs = CreateCluster_loop msk rest (cs @ [new_Cluster it msk])"

definition CreateClusterElements ::
  "EmberAfClusterMask \<Rightarrow> ClusterId list \<Rightarrow> EndpointType \<Rightarrow> int \<times> EndpointType" where
  "CreateClusterElements msk clusterlist e =
     (0, e\<lparr>mClusters := CreateCluster_loop msk clusterlist (mClusters e)\<rparr>)"

fun UpdateCluster_loop ::
  "ClusterId \<Rightarrow> Attribute option \<Rightarrow> Cluster list \<Rightarrow> (int \<times> Cluster list) result" where
  "UpdateCluster_loop inClusterId a [] = Inr (-1, [])"
| "UpdateCluster_loop inClusterId a (it # rest) =
     (if inClusterId = mClusterId it
      then bindE (AddOrUpdateAttribute a it) (\<lambda>(ret, it'). Inr (ret, it' # rest))
      else bindE (UpdateCluster_loop inClusterId a rest) (\<lambda>(ret, rest'). Inr (ret, it # rest')))"

definition UpdateClusterData ::
  "ClusterId \<Rightarrow> Attribute option \<Rightarrow> EndpointType \<Rightarrow> (int \<times> EndpointType) result" where
  "UpdateClusterData inClusterId inAttributeData e =
     bindE (UpdateCluster_loop inClusterId inAttributeData (mClusters e))
       (\<lambda>(ret, cs). Inr (ret, e\<lparr>mClusters := cs\<rparr>))"

fun FindCluster_loop :: "ClusterId \<Rightarrow> nat \<Rightarrow> Cluster list \<Rightarrow> nat option" where
  "FindCluster_loop inClusterId i [] = None"
| "FindCluster_loop inClusterId i (c # rest) =
     (if inClusterId = mClusterId c then Some i else FindCluster_loop inClusterId (Suc i) rest)"

definition FindClusterData :: "ClusterId \<Rightarrow> EndpointType \<Rightarrow> nat option" where
  "FindClusterData inClusterId e = FindCluster_loop inClusterId 0 (mClusters e)"

section \<open>Nodes\<close>

text \<open>
  \<open>'ip\<close> is the SDK's \<^verbatim>\<open>chip::Inet::IPAddress\<close>, with \<open>any\<close> its constant \<^verbatim>\<open>Any\<close>. A constructor
  leaves the members it does not name, of arithmetic type, with whatever the storage held: the
  model passes the storage \<open>raw\<close> in and overwrites what the constructor initialises.
\<close>

record 'ip Node = join_state +
  mEndpointTypes :: "EndpointType list"
  mRootEndpoint :: EndpointType
  mEndpointNumbers :: "EndpointId list"
  mNodeId :: NodeId
  mFabricId :: FabricId
  mEui64 :: string
  mOnoffLine :: bool
  mAddress :: 'ip

definition default_members :: "'ip \<Rightarrow> 'ip Node \<Rightarrow> 'ip Node" where
  "default_members any raw = raw\<lparr>mEndpointTypes := [], mRootEndpoint := new_EndpointType 0,
     mEndpointNumbers := [], mEui64 := [], mAddress := any\<rparr>"

definition new_Node_eui :: "'ip \<Rightarrow> 'ip Node \<Rightarrow> string \<Rightarrow> 'ip Node" where
  "new_Node_eui any raw eui = (default_members any raw)\<lparr>mEui64 := eui\<rparr>"

definition new_Node_id :: "'ip \<Rightarrow> 'ip Node \<Rightarrow> NodeId \<Rightarrow> 'ip Node" where
  "new_Node_id any raw nodeId = (default_members any raw)\<lparr>mNodeId := nodeId\<rparr>"

definition new_Node_fabric :: "'ip \<Rightarrow> 'ip Node \<Rightarrow> NodeId \<Rightarrow> FabricId \<Rightarrow> 'ip Node" where
  "new_Node_fabric any raw nodeId fabric =
     (default_members any raw)\<lparr>mNodeId := nodeId, mFabricId := fabric\<rparr>"

fun AddEndpoint_loop :: "EventNumber list \<Rightarrow> EndpointType list \<Rightarrow> EndpointType list" where
  "AddEndpoint_loop [] es = es"
| "AddEndpoint_loop (it # rest) es = AddEndpoint_loop rest (es @ [new_EndpointType it])"

definition AddEndpointTypeElements :: "EventNumber list \<Rightarrow> 'ip Node \<Rightarrow> int \<times> 'ip Node" where
  "AddEndpointTypeElements eplist n =
     (0, n\<lparr>mEndpointTypes := AddEndpoint_loop eplist (mEndpointTypes n)\<rparr>)"

fun FindEndpoint_loop :: "EventNumber \<Rightarrow> nat \<Rightarrow> EndpointType list \<Rightarrow> nat option" where
  "FindEndpoint_loop ep i [] = None"
| "FindEndpoint_loop ep i (e # rest) =
     (if ep = mEndpointNumber e then Some i else FindEndpoint_loop ep (Suc i) rest)"

definition FindEndpointTypeData :: "EventNumber \<Rightarrow> 'ip Node \<Rightarrow> nat option" where
  "FindEndpointTypeData ep n = FindEndpoint_loop ep 0 (mEndpointTypes n)"

section \<open>Searches\<close>

interpretation attrs: keyed_vector mAttributeId FindAttribute_loop
  by unfold_locales simp_all

interpretation clusters: keyed_vector mClusterId FindCluster_loop
  by unfold_locales simp_all

interpretation endpoints: keyed_vector mEndpointNumber FindEndpoint_loop
  by unfold_locales simp_all

text \<open>What a client reads through the returned pointer: the attributes of a cluster as a map.\<close>

definition attr_map :: "Attribute list \<Rightarrow> AttributeId \<rightharpoonup> (EmberAfAttributeType \<times> string)" where
  "attr_map as k = map_option (\<lambda>i. (mAttributeType (as ! i), mAttributeVal (as ! i))) (FindAttribute_loop k 0 as)"

lemma attr_map_Nil: "attr_map [] = Map.empty"
  by (simp add: attr_map_def fun_eq_iff)

lemma attr_map_Cons:
  "attr_map (a # as) = (attr_map as)(mAttributeId a \<mapsto> (mAttributeType a, mAttributeVal a))"
  by (auto simp: attr_map_def fun_eq_iff attrs.search_step option.map_comp o_def simp del: FindAttribute_loop.simps)

definition stored_type :: "Attribute list \<Rightarrow> AttributeId \<Rightarrow> EmberAfAttributeType \<Rightarrow> EmberAfAttributeType" where
  "stored_type as k ty = (case attr_map as k of None \<Rightarrow> ty | Some (ty', _) \<Rightarrow> ty')"

lemma attr_map_AddOrUpdate:
  "attr_map (AddOrUpdate_loop k ty v as) = (attr_map as)(k \<mapsto> (stored_type as k ty, v))"
  by (induction as)
    (auto simp: attr_map_Nil attr_map_Cons stored_type_def new_Attribute_data_def fun_eq_iff)

lemma ids_AddOrUpdate:
  "map mAttributeId (AddOrUpdate_loop k ty v as) =
     map mAttributeId as @ (if k \<in> mAttributeId ` set as then [] else [k])"
  by (induction as) (auto simp: new_Attribute_data_def)

text \<open>
  C23. Writing an attribute and reading it back: after \<^verbatim>\<open>AddOrUpdateAttributeData\<close> the cluster maps
  the identifier to the new value, every other identifier reads as before, and the call reports
  success. The declared type is taken from the call only when the attribute is new; an existing
  attribute keeps the type it was created with.
\<close>

theorem AddOrUpdate_then_Find:
  "fst (AddOrUpdateAttributeData k ty v c) = 0 \<and>
   attr_map (mAttributes (snd (AddOrUpdateAttributeData k ty v c))) =
     (attr_map (mAttributes c))(k \<mapsto> (stored_type (mAttributes c) k ty, v))"
  by (simp add: AddOrUpdateAttributeData_def attr_map_AddOrUpdate)

section \<open>Well-formed endpoints\<close>

text \<open>No cluster holds two entries for one attribute.\<close>

definition wf_cluster :: "Cluster \<Rightarrow> bool" where
  "wf_cluster c \<longleftrightarrow> distinct (map mAttributeId (mAttributes c))"

definition wf_endpoint :: "EndpointType \<Rightarrow> bool" where
  "wf_endpoint e \<longleftrightarrow> list_all wf_cluster (mClusters e)"

lemma wf_AddOrUpdate: "wf_cluster c \<Longrightarrow> wf_cluster (snd (AddOrUpdateAttributeData k ty v c))"
  by (auto simp: wf_cluster_def AddOrUpdateAttributeData_def ids_AddOrUpdate)

lemma wf_new_Cluster: "wf_cluster (new_Cluster k m)"
  by (simp add: wf_cluster_def new_Cluster_def)

lemma wf_new_EndpointType: "wf_endpoint (new_EndpointType ep)"
  by (simp add: wf_endpoint_def new_EndpointType_def)

lemma CreateCluster_loop_eq: "CreateCluster_loop m ks cs = cs @ map (\<lambda>k. new_Cluster k m) ks"
  by (induction ks arbitrary: cs) simp_all

lemma AddEndpoint_loop_eq: "AddEndpoint_loop eps es = es @ map new_EndpointType eps"
  by (induction eps arbitrary: es) simp_all

text \<open>The update of a cluster list, with the cluster chosen by the same search as the reader's.\<close>

lemma UpdateCluster_loop_eq:
  "UpdateCluster_loop k (Some a) cs = Inr (case FindCluster_loop k 0 cs of
      None \<Rightarrow> (-1, cs)
    | Some j \<Rightarrow> (0, cs[j := snd (AddOrUpdateAttributeData (mAttributeId a) (mAttributeType a) (mAttributeVal a) (cs ! j))]))"
  by (induction cs)
    (auto simp: clusters.search_step AddOrUpdateAttribute_def AddOrUpdateAttributeData_def
      simp del: FindCluster_loop.simps(2) split: option.split)

lemma UpdateCluster_loop_null:
  "UpdateCluster_loop k None cs = (case FindCluster_loop k 0 cs of None \<Rightarrow> Inr (-1, cs) | Some _ \<Rightarrow> Inl NullDeref)"
  by (induction cs)
    (auto simp: clusters.search_step AddOrUpdateAttribute_def simp del: FindCluster_loop.simps(2) split: option.split)

lemma UpdateCluster_ids:
  "UpdateCluster_loop k a cs = Inr (r, cs') \<Longrightarrow> map mClusterId cs' = map mClusterId cs"
  by (cases a)
    (auto simp: UpdateCluster_loop_eq UpdateCluster_loop_null AddOrUpdateAttributeData_def
      clusters.search_Some map_update split: option.splits intro!: list_update_same_conv [THEN iffD2])

lemma UpdateClusterData_eq:
  "UpdateClusterData k (Some a) e = Inr (case FindClusterData k e of
      None \<Rightarrow> (-1, e)
    | Some j \<Rightarrow> (0, e\<lparr>mClusters := (mClusters e)[j := snd (AddOrUpdateAttributeData
         (mAttributeId a) (mAttributeType a) (mAttributeVal a) (mClusters e ! j))]\<rparr>))"
  by (simp add: UpdateClusterData_def FindClusterData_def UpdateCluster_loop_eq split: option.split)

lemma UpdateClusterData_None_eq:
  "UpdateClusterData k None e = (if FindClusterData k e = None then Inr (-1, e) else Inl NullDeref)"
  by (auto simp: UpdateClusterData_def FindClusterData_def UpdateCluster_loop_null split: option.split)

text \<open>
  C24. \<^verbatim>\<open>UpdateClusterData\<close> changes exactly the cluster that \<^verbatim>\<open>FindClusterData\<close> returns for the same
  identifier, by one attribute write, and returns 0; when there is no such cluster it returns -1
  and the endpoint is untouched. The clusters keep their positions, so pointers to them stay
  valid.
\<close>

theorem UpdateClusterData_spec:
  "UpdateClusterData k (Some a) e = Inr (case FindClusterData k e of
      None \<Rightarrow> (-1, e)
    | Some j \<Rightarrow> (0, e\<lparr>mClusters := (mClusters e)[j := snd (AddOrUpdateAttributeData
         (mAttributeId a) (mAttributeType a) (mAttributeVal a) (mClusters e ! j))]\<rparr>))"
  by (rule UpdateClusterData_eq)

text \<open>
  A null attribute pointer is dereferenced exactly when the cluster is found; an unknown
  cluster returns -1 before the pointer is read.
\<close>

theorem UpdateClusterData_null:
  "UpdateClusterData k None e = (if FindClusterData k e = None then Inr (-1, e) else Inl NullDeref)"
  by (rule UpdateClusterData_None_eq)

section \<open>Reachable endpoints\<close>

inductive endpoint_reach :: "EventNumber \<Rightarrow> EndpointType \<Rightarrow> bool" for ep where
  start: "endpoint_reach ep (new_EndpointType ep)"
| create: "endpoint_reach ep e \<Longrightarrow> endpoint_reach ep (snd (CreateClusterElements m ks e))"
| update: "endpoint_reach ep e \<Longrightarrow> UpdateClusterData k a e = Inr (r, e') \<Longrightarrow> endpoint_reach ep e'"

lemma wf_CreateClusterElements: "wf_endpoint e \<Longrightarrow> wf_endpoint (snd (CreateClusterElements m ks e))"
  by (auto simp: wf_endpoint_def CreateClusterElements_def CreateCluster_loop_eq wf_new_Cluster list_all_iff)

lemma wf_UpdateClusterData:
  assumes "wf_endpoint e" and "UpdateClusterData k a e = Inr (r, e')"
  shows "wf_endpoint e'"
proof (cases a)
  case None
  with assms show ?thesis by (simp add: UpdateClusterData_None_eq split: if_splits)
next
  case (Some b)
  have "wf_cluster (mClusters e ! j)" if "j < length (mClusters e)" for j
    using that assms(1) by (simp add: wf_endpoint_def list_all_length)
  with assms Some show ?thesis
    by (auto simp: UpdateClusterData_eq wf_endpoint_def intro!: list_all_update wf_AddOrUpdate
        split: option.splits)
qed

lemma UpdateClusterData_number:
  "UpdateClusterData k a e = Inr (r, e') \<Longrightarrow> mEndpointNumber e' = mEndpointNumber e"
  by (auto simp: UpdateClusterData_def bindE_eq_Inr)

text \<open>
  C25. Every endpoint built by the class's own operations from its constructor keeps its number and
  holds at most one entry per attribute in every cluster.
\<close>

theorem endpoint_reach_wf:
  assumes "endpoint_reach ep e"
  shows "wf_endpoint e \<and> mEndpointNumber e = ep"
  using assms
proof induction
  case start
  then show ?case by (simp add: wf_new_EndpointType) (simp add: new_EndpointType_def)
next
  case (create e m ks)
  then show ?case by (simp add: wf_CreateClusterElements) (simp add: CreateClusterElements_def)
next
  case (update e k a r e')
  then show ?case using wf_UpdateClusterData UpdateClusterData_number by blast
qed

theorem endpoint_reach_wf_witness:
  "\<exists>e. endpoint_reach 3 e \<and> mClusters e = [\<lparr>mClusterId = 6, mMask = 1, mAttributes = [new_Attribute_data 0 16 ''on'', new_Attribute_data 7 16 ''x'']\<rparr>, new_Cluster 8 1] \<and>
    wf_endpoint e \<and> mEndpointNumber e = 3"
proof -
  let ?e = "snd (CreateClusterElements 1 [6, 8] (new_EndpointType 3))"
  let ?e1 = "?e\<lparr>mClusters := [\<lparr>mClusterId = 6, mMask = 1, mAttributes = [new_Attribute_data 0 16 ''off'']\<rparr>, new_Cluster 8 1]\<rparr>"
  let ?e2 = "?e\<lparr>mClusters := [\<lparr>mClusterId = 6, mMask = 1, mAttributes = [new_Attribute_data 0 16 ''on'']\<rparr>, new_Cluster 8 1]\<rparr>"
  let ?e3 = "?e\<lparr>mClusters := [\<lparr>mClusterId = 6, mMask = 1, mAttributes = [new_Attribute_data 0 16 ''on'', new_Attribute_data 7 16 ''x'']\<rparr>, new_Cluster 8 1]\<rparr>"
  note defs = UpdateClusterData_def CreateClusterElements_def new_EndpointType_def new_Cluster_def AddOrUpdateAttribute_def AddOrUpdateAttributeData_def new_Attribute_data_def
  have "UpdateClusterData 6 (Some (new_Attribute_data 0 16 ''off'')) ?e = Inr (0, ?e1)" "UpdateClusterData 6 (Some (new_Attribute_data 0 16 ''on'')) ?e1 = Inr (0, ?e2)"
    "UpdateClusterData 6 (Some (new_Attribute_data 7 16 ''x'')) ?e2 = Inr (0, ?e3)"
    by (simp_all add: defs)
  then have "endpoint_reach 3 ?e3" by (meson endpoint_reach.intros)
  with endpoint_reach_wf [OF this] show ?thesis by (intro exI [of _ ?e3]) simp
qed

text \<open>
  When an identifier is in both the server and the client list of a descriptor, the entry
  created second is out of reach: \<^verbatim>\<open>FindClusterData\<close>, and so every update, resolves to the entry
  of the list stored first.
\<close>

theorem second_mask_shadowed:
  assumes "k \<in> set ks"
  shows "\<exists>j. FindClusterData k (snd (CreateClusterElements m' ks' (snd (CreateClusterElements m ks (new_EndpointType ep))))) = Some j
    \<and> mMask (mClusters (snd (CreateClusterElements m' ks' (snd (CreateClusterElements m ks (new_EndpointType ep))))) ! j) = m"
proof -
  let ?first = "map (\<lambda>k. new_Cluster k m) ks" and ?second = "map (\<lambda>k. new_Cluster k m') ks'"
  have "mClusterId (new_Cluster k m) = k" for k by (simp add: new_Cluster_def)
  with assms have "k \<in> mClusterId ` set ?first" by (simp add: image_image)
  then obtain j where j: "FindCluster_loop k 0 ?first = Some j"
    using clusters.search_hit by blast
  then have "j < length ks" by (simp add: clusters.search_Some)
  then have "mMask ((?first @ ?second) ! j) = m" by (simp add: nth_append new_Cluster_def)
  moreover have "FindCluster_loop k 0 (?first @ ?second) = Some j"
    using j by (simp add: clusters.search_append)
  ultimately show ?thesis
    by (simp add: FindClusterData_def CreateClusterElements_def CreateCluster_loop_eq new_EndpointType_def)
qed

theorem second_mask_shadowed_witness:
  "\<exists>j. FindClusterData 6 (snd (CreateClusterElements 0x40 [6] (snd (CreateClusterElements 0x80 [29, 6] (new_EndpointType 1))))) = Some j
    \<and> mMask (mClusters (snd (CreateClusterElements 0x40 [6] (snd (CreateClusterElements 0x80 [29, 6] (new_EndpointType 1))))) ! j) = 0x80"
  by (rule second_mask_shadowed) simp

section \<open>Nodes\<close>

text \<open>
  The part list of the root endpoint: after \<^verbatim>\<open>AddEndpointTypeElements\<close> a search finds an
  endpoint exactly when its number was already there or is in the list, and what was found before
  is found at the same place.
\<close>

theorem AddEndpointTypeElements_Find:
  "(FindEndpointTypeData ep (snd (AddEndpointTypeElements eps n)) = None \<longleftrightarrow>
      FindEndpointTypeData ep n = None \<and> ep \<notin> set eps) \<and>
   (\<forall>j. FindEndpointTypeData ep n = Some j \<longrightarrow>
      FindEndpointTypeData ep (snd (AddEndpointTypeElements eps n)) = Some j)"
proof -
  have "mEndpointNumber ` new_EndpointType ` set eps = set eps"
    by (auto simp: image_iff new_EndpointType_def)
  then show ?thesis
    by (auto simp: FindEndpointTypeData_def AddEndpointTypeElements_def AddEndpoint_loop_eq
        endpoints.search_None endpoints.search_append split: option.splits dest: endpoints.search_SomeD)
qed

definition raw_example :: "unit Node" where
  "raw_example = \<lparr>mJoinStage = 0xCDCDCDCD, mTimeStamp = 0, mEndpointTypes = [], mRootEndpoint = new_EndpointType 0,
     mEndpointNumbers = [], mNodeId = 0xCDCDCDCD, mFabricId = 0xCDCDCDCD, mEui64 = [], mOnoffLine = True, mAddress = ()\<rparr>"

theorem AddEndpointTypeElements_Find_witness:
  "FindEndpointTypeData 2 (snd (AddEndpointTypeElements [2, 7]
     (snd (AddEndpointTypeElements [1, 2] (new_Node_id () raw_example 5))))) = Some 1"
proof -
  have "FindEndpointTypeData 2 (snd (AddEndpointTypeElements [1, 2] (new_Node_id () raw_example 5))) = Some 1"
    by (simp add: FindEndpointTypeData_def AddEndpointTypeElements_def new_Node_id_def
        default_members_def new_EndpointType_def)
  then show ?thesis using AddEndpointTypeElements_Find by blast
qed

text \<open>
  No constructor initialises the commissioning word: a new node reports whatever stage,
  status and retry count its storage held, until the first \<^verbatim>\<open>SetJoinStage\<close>.
\<close>

theorem new_Node_stage_indeterminate:
  "view (new_Node_eui any raw eui) = view raw \<and>
   view (new_Node_id any raw nid) = view raw \<and>
   view (new_Node_fabric any raw nid fab) = view raw"
  by (simp add: view_def GetJoinStage_def GetJoinStatus_def GetJoinReCount_def
      new_Node_eui_def new_Node_id_def new_Node_fabric_def default_members_def)

end
