(* ===== verification/Device_Registry.thy ===== *)
theory Device_Registry
  imports Device_Model "HOL-Library.List_Lexorder" "HOL-Library.Char_ord"
begin

text \<open>
  The device registry, \<^verbatim>\<open>class Devices\<close> of \<^verbatim>\<open>devices_struct/DeviceDefine.h\<close>: a
  \<^verbatim>\<open>std::map\<close> from MAC strings to shared pointers. The map is the list of its entries in iteration
  order, strictly increasing in the byte order of \<^verbatim>\<open>std::string\<close>; a shared pointer is the address
  of a node in a store the registry never writes. The lock taken by the two mutators is released
  when they return, so it is not part of the state between calls.
\<close>

section \<open>The map operations the registry uses\<close>

text \<open>\<^verbatim>\<open>std::map::insert\<close> leaves an existing entry alone.\<close>

fun map_insert :: "'k::linorder \<Rightarrow> 'v \<Rightarrow> ('k \<times> 'v) list \<Rightarrow> ('k \<times> 'v) list" where
  "map_insert k v [] = [(k, v)]"
| "map_insert k v ((a, b) # ps) =
     (if k < a then (k, v) # (a, b) # ps
      else if k = a then (a, b) # ps
      else (a, b) # map_insert k v ps)"

fun map_erase :: "'k::linorder \<Rightarrow> ('k \<times> 'v) list \<Rightarrow> ('k \<times> 'v) list" where
  "map_erase k [] = []"
| "map_erase k ((a, b) # ps) = (if k = a then ps else (a, b) # map_erase k ps)"

fun map_find :: "'k::linorder \<Rightarrow> ('k \<times> 'v) list \<Rightarrow> 'v option" where
  "map_find k [] = None"
| "map_find k ((a, b) # ps) = (if k = a then Some b else map_find k ps)"

definition ordered :: "('k::linorder \<times> 'v) list \<Rightarrow> bool" where
  "ordered ps \<longleftrightarrow> sorted_wrt (<) (map fst ps)"

section \<open>The registry\<close>

record Devices =
  mDeviceMap :: "(string \<times> addr) list"

definition new_Devices :: Devices where
  "new_Devices = \<lparr>mDeviceMap = []\<rparr>"

definition addDeviceNode :: "string \<Rightarrow> addr \<Rightarrow> Devices \<Rightarrow> Devices" where
  "addDeviceNode mac device d = d\<lparr>mDeviceMap := map_insert mac device (mDeviceMap d)\<rparr>"

definition RemoveDeviceNode :: "string \<Rightarrow> Devices \<Rightarrow> Devices" where
  "RemoveDeviceNode mac d = d\<lparr>mDeviceMap := map_erase mac (mDeviceMap d)\<rparr>"

definition findDeviceByDidEx :: "string \<Rightarrow> Devices \<Rightarrow> addr" where
  "findDeviceByDidEx mac d = (case map_find mac (mDeviceMap d) of None \<Rightarrow> null | Some p \<Rightarrow> p)"

definition findDeviceByDid :: "string \<Rightarrow> Devices \<Rightarrow> addr" where
  "findDeviceByDid mac d = (let device = findDeviceByDidEx mac d in if device \<noteq> null then device else null)"

fun NodeId_loop :: "(addr \<rightharpoonup> 'ip Node) \<Rightarrow> NodeId \<Rightarrow> (string \<times> addr) list \<Rightarrow> addr result" where
  "NodeId_loop store nodeid [] = Inr null"
| "NodeId_loop store nodeid ((mac, p) # rest) =
     bindE (load store p) (\<lambda>node. if mNodeId node = nodeid then Inr p else NodeId_loop store nodeid rest)"

definition findDeviceByNodeId :: "(addr \<rightharpoonup> 'ip Node) \<Rightarrow> NodeId \<Rightarrow> Devices \<Rightarrow> addr result" where
  "findDeviceByNodeId store nodeid d = NodeId_loop store nodeid (mDeviceMap d)"

definition getDeviceMap :: "Devices \<Rightarrow> (string \<times> addr) list" where
  "getDeviceMap d = mDeviceMap d"

section \<open>The dictionary contract\<close>

locale insert_once_map =
  fixes invar :: "'m \<Rightarrow> bool"
    and empty :: 'm
    and lookup :: "'k \<Rightarrow> 'm \<Rightarrow> 'v option"
    and insert :: "'k \<Rightarrow> 'v \<Rightarrow> 'm \<Rightarrow> 'm"
    and erase :: "'k \<Rightarrow> 'm \<Rightarrow> 'm"
  assumes invar_empty: "invar empty"
    and invar_insert: "invar m \<Longrightarrow> invar (insert k v m)"
    and invar_erase: "invar m \<Longrightarrow> invar (erase k m)"
    and lookup_empty: "lookup k empty = None"
    and lookup_insert: "invar m \<Longrightarrow> lookup k' (insert k v m) =
          (if k' = k \<and> lookup k m = None then Some v else lookup k' m)"
    and lookup_erase: "invar m \<Longrightarrow> lookup k' (erase k m) = (if k' = k then None else lookup k' m)"
begin

lemma reinsert: "invar m \<Longrightarrow> lookup k' (insert k v (erase k m)) = (if k' = k then Some v else lookup k' m)"
  by (simp add: lookup_insert lookup_erase invar_erase)

lemma insert_all_invar: "invar m \<Longrightarrow> invar (fold (\<lambda>(k, v). insert k v) kvs m)"
  by (induction kvs arbitrary: m) (auto simp: invar_insert)

text \<open>Of several insertions for one key the first counts.\<close>

lemma lookup_insert_all:
  "invar m \<Longrightarrow> lookup k (fold (\<lambda>(k, v). insert k v) kvs m) =
     (case lookup k m of Some v \<Rightarrow> Some v | None \<Rightarrow> map_of kvs k)"
proof (induction kvs arbitrary: m)
  case Nil
  then show ?case by (simp split: option.split)
next
  case (Cons kv kvs)
  obtain a b where "kv = (a, b)" by force
  with Cons show ?case by (auto simp: invar_insert lookup_insert split: option.split)
qed

end

section \<open>The entry list meets the contract\<close>

lemma ordered_Cons: "ordered (p # ps) \<longleftrightarrow> (\<forall>q \<in> set ps. fst p < fst q) \<and> ordered ps"
  by (simp add: ordered_def)

lemma set_map_insert: "set (map_insert k v ps) \<subseteq> Set.insert (k, v) (set ps)"
  by (induction k v ps rule: map_insert.induct) auto

lemma set_map_erase: "set (map_erase k ps) \<subseteq> set ps"
  by (induction k ps rule: map_erase.induct) auto

lemma ordered_map_insert: "ordered ps \<Longrightarrow> ordered (map_insert k v ps)"
proof (induction k v ps rule: map_insert.induct)
  case (1 k v)
  then show ?case by (simp add: ordered_def)
next
  case (2 k v a b ps)
  then show ?case using set_map_insert [of k v ps] by (fastforce simp: ordered_Cons)
qed

lemma ordered_map_erase: "ordered ps \<Longrightarrow> ordered (map_erase k ps)"
  by (induction k ps rule: map_erase.induct) (use set_map_erase in \<open>fastforce simp: ordered_Cons\<close>)+

lemma map_find_None: "map_find k ps = None \<longleftrightarrow> k \<notin> fst ` set ps"
  by (induction k ps rule: map_find.induct) auto

lemma map_find_map_of: "map_find k ps = map_of ps k"
  by (induction k ps rule: map_find.induct) auto

lemma find_below: "ordered ((a, b) # ps) \<Longrightarrow> k \<le> a \<Longrightarrow> map_find k ps = None"
  by (force simp: map_find_None ordered_Cons)

lemma map_find_insert:
  "ordered ps \<Longrightarrow> map_find k' (map_insert k v ps) =
     (if k' = k \<and> map_find k ps = None then Some v else map_find k' ps)"
proof (induction k v ps rule: map_insert.induct)
  case (1 k v)
  then show ?case by simp
next
  case (2 k v a b ps)
  from 2(2) have "ordered ps" by (simp add: ordered_Cons)
  with 2 show ?case using find_below [OF 2(2), of k] by (auto simp: order_less_imp_le)
qed

lemma map_find_erase: "ordered ps \<Longrightarrow> map_find k' (map_erase k ps) = (if k' = k then None else map_find k' ps)"
proof (induction k ps rule: map_erase.induct)
  case (1 k)
  then show ?case by simp
next
  case (2 k a b ps)
  from 2(2) have "ordered ps" by (simp add: ordered_Cons)
  with 2 show ?case using find_below [OF 2(2), of k] by auto
qed

interpretation entries: insert_once_map ordered "[]" map_find map_insert map_erase
  by unfold_locales
    (simp_all add: ordered_map_insert ordered_map_erase map_find_insert map_find_erase, simp add: ordered_def)

section \<open>Reachable registries\<close>

inductive devices_reach :: "Devices \<Rightarrow> bool" where
  start: "devices_reach new_Devices"
| add: "devices_reach d \<Longrightarrow> devices_reach (addDeviceNode mac p d)"
| remove: "devices_reach d \<Longrightarrow> devices_reach (RemoveDeviceNode mac d)"

lemma devices_reach_ordered: "devices_reach d \<Longrightarrow> ordered (mDeviceMap d)"
  by (induction rule: devices_reach.induct)
    (simp_all add: new_Devices_def addDeviceNode_def RemoveDeviceNode_def entries.invar_insert
      entries.invar_erase entries.invar_empty)

text \<open>
  C26. In every registry built by its own operations, \<^verbatim>\<open>addDeviceNode\<close> registers a node under a free
  MAC and never replaces a registered one, and every other MAC still finds what it found before.
  Removing a device makes its MAC unknown and touches no other; adding it again after the removal
  registers the new node, which is how a firmware upgrade replaces one.
\<close>

theorem registry_laws:
  assumes "devices_reach d"
  shows "findDeviceByDid mac' (addDeviceNode mac p d) =
      (if mac' = mac \<and> mac \<notin> fst ` set (getDeviceMap d) then p else findDeviceByDid mac' d) \<and>
    findDeviceByDid mac (RemoveDeviceNode mac d) = null \<and>
    findDeviceByDid mac' (addDeviceNode mac p (RemoveDeviceNode mac d)) =
      (if mac' = mac then p else findDeviceByDid mac' d)"
proof -
  note ord = devices_reach_ordered [OF assms]
  have "findDeviceByDid mac' (addDeviceNode mac p d) =
      (if mac' = mac \<and> mac \<notin> fst ` set (getDeviceMap d) then p else findDeviceByDid mac' d)"
    using entries.lookup_insert [OF ord, of mac' mac p]
    by (auto simp: findDeviceByDid_def findDeviceByDidEx_def addDeviceNode_def getDeviceMap_def
        map_find_None Let_def split: if_splits option.split)
  moreover have "findDeviceByDid mac (RemoveDeviceNode mac d) = null \<and>
    findDeviceByDid mac' (addDeviceNode mac p (RemoveDeviceNode mac d)) = (if mac' = mac then p else findDeviceByDid mac' d)"
    using entries.lookup_erase [OF ord, of mac mac] entries.reinsert [OF ord, of mac' mac p]
    by (simp add: findDeviceByDid_def findDeviceByDidEx_def addDeviceNode_def RemoveDeviceNode_def)
  ultimately show ?thesis by blast
qed

theorem registry_laws_witness:
  "findDeviceByDid ''a1'' (addDeviceNode ''a1'' 7 (addDeviceNode ''a1'' 5 new_Devices)) = 5 \<and>
   findDeviceByDid ''a1'' (addDeviceNode ''a1'' 9 (RemoveDeviceNode ''a1'' (addDeviceNode ''a1'' 5 new_Devices))) = 9"
  using registry_laws [OF devices_reach.add [OF devices_reach.start], of "''a1''" "''a1''" 7 "''a1''" 5]
    registry_laws [OF devices_reach.add [OF devices_reach.start], of "''a1''" "''a1''" 9 "''a1''" 5]
  by (simp add: new_Devices_def addDeviceNode_def getDeviceMap_def findDeviceByDid_def findDeviceByDidEx_def)

section \<open>Search by node identifier\<close>

definition store_ok :: "(addr \<rightharpoonup> 'ip Node) \<Rightarrow> Devices \<Rightarrow> bool" where
  "store_ok store d \<longleftrightarrow> (\<forall>(mac, p) \<in> set (mDeviceMap d). p \<noteq> null \<and> p \<in> dom store)"

lemma NodeId_loop_find:
  assumes "\<forall>(mac, p) \<in> set ps. p \<noteq> null \<and> p \<in> dom store"
  shows "NodeId_loop store nid ps =
    Inr (case find (\<lambda>(mac, p). mNodeId (the (store p)) = nid) ps of None \<Rightarrow> null | Some (mac, p) \<Rightarrow> p)"
  using assms by (induction ps) (auto simp: load_valid split: prod.splits)

lemma find_Some_ordered:
  assumes "ordered ps"
  shows "find P ps = Some x \<longleftrightarrow> x \<in> set ps \<and> P x \<and> (\<forall>y \<in> set ps. P y \<longrightarrow> fst x \<le> fst y)"
  using assms
proof (induction ps)
  case Nil
  then show ?case by simp
next
  case (Cons p ps)
  then have "\<forall>q \<in> set ps. fst p < fst q" by (simp add: ordered_Cons)
  with Cons show ?case by (force simp: ordered_Cons not_le)
qed

text \<open>
  With every registered pointer valid, \<^verbatim>\<open>findDeviceByNodeId\<close> returns a null pointer exactly when
  no registered node has the identifier, and otherwise the node with the identifier whose MAC is
  least in the map's order.
\<close>

theorem findDeviceByNodeId_spec:
  assumes "devices_reach d" and "store_ok store d"
  shows "(findDeviceByNodeId store nid d = Inr null \<longleftrightarrow>
      (\<forall>(mac, p) \<in> set (getDeviceMap d). mNodeId (the (store p)) \<noteq> nid)) \<and>
    (\<forall>p. p \<noteq> null \<longrightarrow> (findDeviceByNodeId store nid d = Inr p \<longleftrightarrow>
      (\<exists>mac. (mac, p) \<in> set (getDeviceMap d) \<and> mNodeId (the (store p)) = nid \<and>
        (\<forall>(mac', p') \<in> set (getDeviceMap d). mNodeId (the (store p')) = nid \<longrightarrow> mac \<le> mac'))))"
proof -
  let ?P = "\<lambda>(mac :: string, p). mNodeId (the (store p)) = nid" and ?ps = "mDeviceMap d"
  have loop: "findDeviceByNodeId store nid d =
      Inr (case find ?P ?ps of None \<Rightarrow> null | Some (mac, p) \<Rightarrow> p)"
    unfolding findDeviceByNodeId_def
    by (rule NodeId_loop_find) (use assms(2) in \<open>simp add: store_ok_def\<close>)
  have valid: "p \<noteq> null" if "find ?P ?ps = Some (mac, p)" for mac p
    using that assms(2) by (auto simp: store_ok_def find_Some_iff dest!: nth_mem)
  have found: "find ?P ?ps = Some x \<longleftrightarrow> x \<in> set ?ps \<and> ?P x \<and> (\<forall>y \<in> set ?ps. ?P y \<longrightarrow> fst x \<le> fst y)" for x
    by (rule find_Some_ordered [OF devices_reach_ordered [OF assms(1)]])
  have "findDeviceByNodeId store nid d = Inr p \<longleftrightarrow> (\<exists>mac. find ?P ?ps = Some (mac, p))" if "p \<noteq> null" for p
    using that by (auto simp: loop split: option.splits)
  moreover have "findDeviceByNodeId store nid d = Inr null \<longleftrightarrow> find ?P ?ps = None"
    using valid by (auto simp: loop split: option.splits)
  ultimately show ?thesis
    by (auto simp: found find_None_iff getDeviceMap_def split: prod.splits) 
qed

definition example_store :: "addr \<rightharpoonup> unit Node" where
  "example_store = [5 \<mapsto> new_Node_id () raw_example 42, 6 \<mapsto> new_Node_id () raw_example 42]"

definition example_devices :: Devices where
  "example_devices = addDeviceNode ''a1'' 5 (addDeviceNode ''b2'' 6 new_Devices)"

theorem findDeviceByNodeId_spec_witness: "findDeviceByNodeId example_store 42 example_devices = Inr 5"
proof -
  have ps: "getDeviceMap example_devices = [(''a1'', 5), (''b2'', 6)]"
    by (simp add: example_devices_def addDeviceNode_def new_Devices_def getDeviceMap_def)
  have "devices_reach example_devices" unfolding example_devices_def by (intro devices_reach.intros)
  moreover have "store_ok example_store example_devices"
    using ps by (simp add: store_ok_def getDeviceMap_def example_store_def)
  moreover have "mNodeId (the (example_store 5)) = 42"
    by (simp add: example_store_def new_Node_id_def)
  moreover have "''a1'' \<le> ''b2''" by simp
  ultimately show ?thesis
    using findDeviceByNodeId_spec [of example_devices example_store 42] ps by (auto simp del: One_nat_def)
qed

end
