(* ===== verification/Linked_List.thy ===== *)
theory Linked_List
  imports Prelude
begin

text \<open>
  Doubly linked segments in a heap: the shape shared by \<^verbatim>\<open>EmberAfPluginLinkedListElement\<close> of
  \<^verbatim>\<open>devices_struct/DeviceDefine.h\<close> and \<^verbatim>\<open>struct list_head\<close> of libubox's \<^verbatim>\<open>list.h\<close>, and the
  contract of a linked list used as a queue. Objects that carry the two links extend the record.
\<close>

record links =
  next_el :: addr
  prev_el :: addr

section \<open>Segments\<close>

definition first_of :: "addr list \<Rightarrow> addr \<Rightarrow> addr" where
  "first_of ps d = (case ps of [] \<Rightarrow> d | p # _ \<Rightarrow> p)"

definition last_of :: "addr list \<Rightarrow> addr \<Rightarrow> addr" where
  "last_of ps d = (if ps = [] then d else last ps)"

lemma first_of_simps [simp]: "first_of [] d = d" "first_of (p # ps) d = p"
  by (simp_all add: first_of_def)

lemma last_of_simps [simp]: "last_of [] d = d" "last_of (p # ps) d = last_of ps p" "last_of (ps @ [p]) d = p"
  by (simp_all add: last_of_def)

lemma first_of_append [simp]: "first_of (ps @ qs) d = first_of ps (first_of qs d)"
  by (cases ps) simp_all

lemma last_of_append [simp]: "last_of (ps @ qs) d = last_of qs (last_of ps d)"
  by (simp add: last_of_def)

lemma first_of_in: "ps \<noteq> [] \<Longrightarrow> first_of ps d \<in> set ps"
  by (cases ps) simp_all

lemma last_of_in: "ps \<noteq> [] \<Longrightarrow> last_of ps d \<in> set ps"
  by (simp add: last_of_def)

text \<open>
  \<open>seg h pr ps nx\<close>: the objects at \<open>ps\<close> are allocated and linked both ways in this order, the
  first one pointing back to \<open>pr\<close> and the last one forward to \<open>nx\<close>.
\<close>

primrec seg :: "(addr \<rightharpoonup> 'a links_scheme) \<Rightarrow> addr \<Rightarrow> addr list \<Rightarrow> addr \<Rightarrow> bool" where
  "seg h pr [] nx \<longleftrightarrow> True"
| "seg h pr (p # ps) nx \<longleftrightarrow>
     (case h p of None \<Rightarrow> False
      | Some e \<Rightarrow> prev_el e = pr \<and> next_el e = first_of ps nx \<and> seg h p ps nx)"

lemma seg_append: "seg h pr (xs @ ys) nx \<longleftrightarrow> seg h pr xs (first_of ys nx) \<and> seg h (last_of xs pr) ys nx"
  by (induction xs arbitrary: pr) (auto split: option.splits)

lemma seg_frame [simp]: "p \<notin> set ps \<Longrightarrow> seg (h(p := x)) pr ps nx = seg h pr ps nx"
  by (induction ps arbitrary: pr) (auto split: option.splits)

lemma seg_alloc: "seg h pr ps nx \<Longrightarrow> p \<in> set ps \<Longrightarrow> \<exists>e. h p = Some e"
  by (induction ps arbitrary: pr) (auto split: option.splits)

lemma seg_dom: "seg h pr ps nx \<Longrightarrow> set ps \<subseteq> dom h"
  using seg_alloc by blast

text \<open>Redirecting the outer links of a segment.\<close>

lemma seg_last_next:
  "seg h pr (xs @ [p]) nx \<Longrightarrow> p \<notin> set xs \<Longrightarrow> h p = Some e \<Longrightarrow>
   seg (h(p \<mapsto> e\<lparr>next_el := nx'\<rparr>)) pr (xs @ [p]) nx'"
  by (simp add: seg_append)

lemma seg_first_prev:
  "seg h pr (p # ps) nx \<Longrightarrow> p \<notin> set ps \<Longrightarrow> h p = Some e \<Longrightarrow>
   seg (h(p \<mapsto> e\<lparr>prev_el := pr'\<rparr>)) pr' (p # ps) nx"
  by simp

lemma seg_mid:
  assumes "seg h pr (xs @ p # ys) nx"
  obtains e where "h p = Some e" "prev_el e = last_of xs pr" "next_el e = first_of ys nx"
    "seg h pr xs p" "seg h p ys nx"
  using assms by (auto simp: seg_append split: option.splits)

lemma seg_same_links:
  "(\<And>p. p \<in> set ps \<Longrightarrow> map_option next_el (h' p) = map_option next_el (h p)
      \<and> map_option prev_el (h' p) = map_option prev_el (h p)) \<Longrightarrow>
   seg h pr ps nx \<Longrightarrow> seg h' pr ps nx"
  by (induction ps arbitrary: pr) (force split: option.splits)+

section \<open>A linked list as a queue\<close>

primrec push_all :: "(addr \<Rightarrow> 's \<Rightarrow> 's result) \<Rightarrow> addr list \<Rightarrow> 's \<Rightarrow> 's result" where
  "push_all push [] s = Inr s"
| "push_all push (p # ps) s = bindE (push p s) (push_all push ps)"

primrec pop_n :: "('s \<Rightarrow> 's result) \<Rightarrow> nat \<Rightarrow> 's \<Rightarrow> 's result" where
  "pop_n pop 0 s = Inr s"
| "pop_n pop (Suc k) s = bindE (pop s) (pop_n pop k)"

text \<open>
  The contract of a list that grows at the tail and is drained from the head. \<open>room s ps\<close> says that
  the objects \<open>ps\<close> may be enqueued one after the other.
\<close>

locale linked_queue =
  fixes rep :: "'s \<Rightarrow> addr list \<Rightarrow> bool"
    and room :: "'s \<Rightarrow> addr list \<Rightarrow> bool"
    and push :: "addr \<Rightarrow> 's \<Rightarrow> 's result"
    and pop :: "'s \<Rightarrow> 's result"
  assumes push_rep: "rep s ps \<Longrightarrow> room s (p # qs) \<Longrightarrow>
        \<exists>s'. push p s = Inr s' \<and> rep s' (ps @ [p]) \<and> room s' qs"
    and pop_rep: "rep s (p # ps) \<Longrightarrow> \<exists>s'. pop s = Inr s' \<and> rep s' ps"
begin

lemma push_all_rep: "rep s ps \<Longrightarrow> room s qs \<Longrightarrow> \<exists>s'. push_all push qs s = Inr s' \<and> rep s' (ps @ qs)"
proof (induction qs arbitrary: s ps)
  case Nil
  then show ?case by simp
next
  case (Cons q qs)
  then obtain s1 where "push q s = Inr s1" "rep s1 (ps @ [q])" "room s1 qs" using push_rep by blast
  with Cons.IH [of s1 "ps @ [q]"] show ?case by simp
qed

lemma pop_n_rep: "rep s ps \<Longrightarrow> k \<le> length ps \<Longrightarrow> \<exists>s'. pop_n pop k s = Inr s' \<and> rep s' (drop k ps)"
proof (induction k arbitrary: s ps)
  case 0
  then show ?case by simp
next
  case (Suc k)
  then obtain p qs where "ps = p # qs" by (cases ps) auto
  with Suc.prems obtain s1 where "pop s = Inr s1" "rep s1 qs" using pop_rep by blast
  with Suc \<open>ps = p # qs\<close> show ?case by simp
qed

text \<open>First in, first out: what was in the queue leaves first, then the new objects in order.\<close>

lemma fifo:
  assumes "rep s ps" "room s qs"
  shows "\<exists>s'. bindE (push_all push qs s) (pop_n pop (length ps)) = Inr s' \<and> rep s' qs"
proof -
  from assms obtain s1 where s1: "push_all push qs s = Inr s1" "rep s1 (ps @ qs)" using push_all_rep by blast
  with pop_n_rep [of s1 "ps @ qs" "length ps"] show ?thesis by auto
qed

end

end
