(* ===== verification/Join_Queue.thy ===== *)
theory Join_Queue
  imports Linked_List
begin

text \<open>
  The ring of nodes being commissioned, \<^verbatim>\<open>class JoinRingQueue\<close> of
  \<^verbatim>\<open>devices_struct/DeviceDefine.h\<close>, with its elements in an explicit heap: every load and store
  through a null or freed pointer is a fault of the model. \<^verbatim>\<open>malloc\<close> is the environment's: the
  address it returned is an argument, null when it failed.
\<close>

section \<open>State\<close>

record EmberAfPluginLinkedListElement = links +
  content :: addr

record JoinRingQueue =
  mhead :: addr
  mtail :: addr
  mcurr :: addr
  mcount :: u32
  heap :: "addr \<rightharpoonup> EmberAfPluginLinkedListElement"

definition new_JoinRingQueue :: "(addr \<rightharpoonup> EmberAfPluginLinkedListElement) \<Rightarrow> JoinRingQueue" where
  "new_JoinRingQueue h = \<lparr>mhead = null, mtail = null, mcurr = null, mcount = 0, heap = h\<rparr>"

section \<open>Operations\<close>

definition PushBack :: "addr \<Rightarrow> addr \<Rightarrow> JoinRingQueue \<Rightarrow> JoinRingQueue result" where
  "PushBack element c q =
     (if element \<noteq> null then
        let h = (heap q)(element \<mapsto> \<lparr>next_el = null, prev_el = mtail q, content = c\<rparr>) in
        bindE (if mhead q = null then Inr (q\<lparr>mhead := element, heap := h\<rparr>)
               else bindE (modify h (mtail q) (\<lambda>e. e\<lparr>next_el := element\<rparr>)) (\<lambda>h. Inr (q\<lparr>heap := h\<rparr>)))
          (\<lambda>q. Inr (q\<lparr>mtail := element, mcount := mcount q + 1\<rparr>))
      else Inr q)"

definition PopFront :: "JoinRingQueue \<Rightarrow> JoinRingQueue result" where
  "PopFront q =
     (if mcount q > 0 then
        let head = mhead q;
            q = (if mtail q = head then q\<lparr>mtail := null\<rparr> else q) in
        bindE (if mcurr q = head then bindE (load (heap q) (mhead q)) (\<lambda>e. Inr (q\<lparr>mcurr := next_el e\<rparr>)) else Inr q)
          (\<lambda>q. bindE (load (heap q) (mhead q))
          (\<lambda>e. bindE (release (heap q) head)
          (\<lambda>h. Inr (q\<lparr>mhead := next_el e, heap := h, mcount := mcount q - 1\<rparr>))))
      else Inr q)"

definition Remove_cursor :: "addr \<Rightarrow> JoinRingQueue \<Rightarrow> JoinRingQueue result" where
  "Remove_cursor element q =
     (if element = mcurr q then
        bindE (load (heap q) element)
          (\<lambda>e. bindE (modify (heap q) (next_el e) (\<lambda>f. f\<lparr>prev_el := prev_el e\<rparr>))
          (\<lambda>h. Inr (q\<lparr>mcurr := next_el e, heap := h\<rparr>)))
      else Inr q)"

definition Remove_unlink :: "addr \<Rightarrow> JoinRingQueue \<Rightarrow> JoinRingQueue result" where
  "Remove_unlink element q =
     (if element = mhead q then
        if mhead q = mtail q then Inr (q\<lparr>mhead := null, mtail := null\<rparr>)
        else bindE (load (heap q) element)
          (\<lambda>e. bindE (modify (heap q) (next_el e) (\<lambda>f. f\<lparr>prev_el := null\<rparr>))
          (\<lambda>h. Inr (q\<lparr>mhead := next_el e, heap := h\<rparr>)))
      else if element = mtail q then
        bindE (load (heap q) element)
          (\<lambda>e. bindE (modify (heap q) (prev_el e) (\<lambda>f. f\<lparr>next_el := null\<rparr>))
          (\<lambda>h. Inr (q\<lparr>mtail := prev_el e, heap := h\<rparr>)))
      else
        bindE (load (heap q) element)
          (\<lambda>e. bindE (modify (heap q) (prev_el e) (\<lambda>f. f\<lparr>next_el := next_el e\<rparr>))
          (\<lambda>h. bindE (load h element)
          (\<lambda>e. bindE (modify h (next_el e) (\<lambda>f. f\<lparr>prev_el := prev_el e\<rparr>))
          (\<lambda>h. Inr (q\<lparr>heap := h\<rparr>))))))"

definition RemoveElement :: "addr \<Rightarrow> JoinRingQueue \<Rightarrow> (bool \<times> JoinRingQueue) result" where
  "RemoveElement element q =
     (if element \<noteq> null \<and> mhead q \<noteq> null then
        bindE (Remove_cursor element q)
          (\<lambda>q. bindE (Remove_unlink element q)
          (\<lambda>q. bindE (release (heap q) element)
          (\<lambda>h. Inr (True, q\<lparr>mcount := mcount q - 1, heap := h\<rparr>))))
      else Inr (False, q))"

text \<open>The loop of \<^verbatim>\<open>ClearAllElements\<close>; the outer \<open>None\<close> is a loop that does not end.\<close>

partial_function (option) ClearAll_loop :: "JoinRingQueue \<Rightarrow> JoinRingQueue result option" where
  "ClearAll_loop q =
     (if mhead q \<noteq> null then
        (case PopFront q of Inl f \<Rightarrow> Some (Inl f) | Inr q' \<Rightarrow> ClearAll_loop q')
      else Some (Inr q))"

definition ClearAllElements :: "JoinRingQueue \<Rightarrow> (bool \<times> JoinRingQueue) result option" where
  "ClearAllElements q = map_option (\<lambda>r. bindE r (\<lambda>q. Inr (True, q))) (ClearAll_loop q)"

definition SpecialElement :: "addr \<Rightarrow> JoinRingQueue \<Rightarrow> (addr \<times> JoinRingQueue) result" where
  "SpecialElement elementPosition q =
     (if elementPosition = null then
        bindE (load (heap q) (mhead q)) (\<lambda>e. Inr (mhead q, q\<lparr>mcurr := next_el e\<rparr>))
      else
        bindE (load (heap q) elementPosition)
          (\<lambda>e. bindE (load (heap q) (next_el e))
          (\<lambda>f. Inr (next_el e, q\<lparr>mcurr := next_el f\<rparr>))))"

definition NextElement :: "JoinRingQueue \<Rightarrow> (addr \<times> JoinRingQueue) result" where
  "NextElement q =
     (let temp = mcurr q in
      if mcurr q \<noteq> mtail q \<and> mcurr q \<noteq> null then
        bindE (load (heap q) (mcurr q)) (\<lambda>e. Inr (temp, q\<lparr>mcurr := next_el e\<rparr>))
      else
        let temp = mhead q in
        if mhead q \<noteq> null then bindE (load (heap q) (mhead q)) (\<lambda>e. Inr (temp, q\<lparr>mcurr := next_el e\<rparr>))
        else Inr (temp, q))"

section \<open>Representation invariant\<close>

text \<open>
  \<open>ring_rep q ps\<close>: the queue holds the elements \<open>ps\<close>, in this order. The head's backward link is
  not constrained: \<^verbatim>\<open>PopFront\<close> leaves it pointing at the freed predecessor.
\<close>

definition ring_rep :: "JoinRingQueue \<Rightarrow> addr list \<Rightarrow> bool" where
  "ring_rep q ps \<longleftrightarrow> distinct ps \<and> null \<notin> set ps
     \<and> mhead q = first_of ps null \<and> mtail q = last_of ps null
     \<and> (mcurr q = null \<or> mcurr q \<in> set ps)
     \<and> length ps < 2 ^ 32 \<and> mcount q = of_nat (length ps)
     \<and> (\<exists>pr. seg (heap q) pr ps null)"

definition contents :: "JoinRingQueue \<Rightarrow> addr list \<Rightarrow> addr list" where
  "contents q ps = map (\<lambda>p. content (the (heap q p))) ps"

lemma ring_rep_alloc: "ring_rep q ps \<Longrightarrow> p \<in> set ps \<Longrightarrow> \<exists>e. heap q p = Some e \<and> p \<noteq> null"
  by (metis ring_rep_def seg_alloc)

lemma ring_rep_count: "ring_rep q ps \<Longrightarrow> mcount q > 0 \<longleftrightarrow> ps \<noteq> []"
  by (auto simp: ring_rep_def word_gt_0 word_of_nat_eq_0_iff dvd_imp_le
      dest: nat_dvd_not_less)

lemma ring_rep_head: "ring_rep q ps \<Longrightarrow> mhead q = null \<longleftrightarrow> ps = []"
  by (cases ps) (auto simp: ring_rep_def)

lemma ring_rep_new: "ring_rep (new_JoinRingQueue h) []"
  by (simp add: ring_rep_def new_JoinRingQueue_def)

lemma contents_frame:
  "(\<And>p. p \<in> set ps \<Longrightarrow> map_option content (heap q' p) = map_option content (heap q p)) \<Longrightarrow>
   set ps \<subseteq> dom (heap q) \<Longrightarrow> contents q' ps = contents q ps"
  by (force simp: contents_def)

lemma ring_rep_dom: "ring_rep q ps \<Longrightarrow> set ps \<subseteq> dom (heap q)"
  using ring_rep_alloc by blast

subsection \<open>Growing and shrinking\<close>

lemma PushBack_rep:
  assumes rep: "ring_rep q ps" and fresh: "p \<noteq> null" "heap q p = None" and fits: "length ps + 1 < 2 ^ 32"
  shows "\<exists>q'. PushBack p c q = Inr q' \<and> ring_rep q' (ps @ [p])
    \<and> contents q' (ps @ [p]) = contents q ps @ [c] \<and> mcurr q' = mcurr q \<and> dom (heap q') = insert p (dom (heap q))"
proof (cases ps rule: rev_cases)
  case Nil
  with rep fresh fits show ?thesis
    by (auto simp: PushBack_def ring_rep_def contents_def)
next
  case (snoc xs t)
  obtain e where e: "heap q t = Some e" "t \<noteq> null" using ring_rep_alloc [OF rep, of t] snoc by auto
  from rep fresh have p: "p \<notin> set ps" using ring_rep_dom by blast
  let ?h = "(heap q)(p \<mapsto> \<lparr>next_el = null, prev_el = t, content = c\<rparr>)"
  let ?q = "q\<lparr>heap := ?h(t \<mapsto> e\<lparr>next_el := p\<rparr>), mtail := p, mcount := mcount q + 1\<rparr>"
  have "mhead q \<noteq> null" using ring_rep_head [OF rep] snoc by simp
  moreover from rep snoc have "mtail q = t" by (simp add: ring_rep_def)
  ultimately have push: "PushBack p c q = Inr ?q"
    using e fresh p snoc by (auto simp: PushBack_def Let_def modify_valid)
  from rep snoc obtain pr where "seg (heap q) pr (xs @ [t]) null" by (auto simp: ring_rep_def)
  then have "seg (?h(t \<mapsto> e\<lparr>next_el := p\<rparr>)) pr (xs @ [t]) p"
    using p snoc e rep by (intro seg_last_next) (auto simp: ring_rep_def)
  then have "seg (heap ?q) pr (ps @ [p]) null"
    using p snoc by (auto simp: seg_append)
  then have "ring_rep ?q (ps @ [p])"
    using rep p fresh fits snoc by (auto simp: ring_rep_def)
  moreover have "contents ?q ps = contents q ps"
    using p e rep ring_rep_dom [OF rep] by (intro contents_frame) auto
  then have "contents ?q (ps @ [p]) = contents q ps @ [c]"
    using p snoc by (auto simp: contents_def)
  moreover have "dom (heap ?q) = insert p (dom (heap q))" using e by auto
  ultimately show ?thesis using push by auto
qed

lemma PopFront_rep:
  assumes rep: "ring_rep q (p # ps)"
  shows "\<exists>q'. PopFront q = Inr q' \<and> ring_rep q' ps \<and> contents q' ps = contents q ps
    \<and> heap q' = (heap q)(p := None)
    \<and> mcurr q' = (if mcurr q = p then first_of ps null else mcurr q)"
proof -
  obtain e where e: "heap q p = Some e" "p \<noteq> null" using ring_rep_alloc [OF rep, of p] by auto
  from rep e have nxt: "next_el e = first_of ps null" and p: "p \<notin> set ps" and head: "mhead q = p"
    and seg: "seg (heap q) p ps null" and tail: "mtail q = last_of ps p"
    by (auto simp: ring_rep_def)
  let ?q = "q\<lparr>mhead := first_of ps null, heap := (heap q)(p := None), mcount := mcount q - 1,
       mtail := last_of ps null, mcurr := if mcurr q = p then first_of ps null else mcurr q\<rparr>"
  have "mtail q = p \<longleftrightarrow> ps = []" using tail p last_of_in [of ps p] by (auto simp: last_of_def)
  then have pop: "PopFront q = Inr ?q"
    using ring_rep_count [OF rep] e nxt head tail
    by (auto simp: PopFront_def Let_def load_valid release_valid last_of_def)
  have "mcount q - 1 = of_nat (length ps)" using rep by (simp add: ring_rep_def)
  moreover have "mcurr ?q = null \<or> mcurr ?q \<in> set ps"
    using rep first_of_in [of ps null] by (cases ps) (auto simp: ring_rep_def)
  ultimately have "ring_rep ?q ps"
    using rep seg p by (auto simp: ring_rep_def)
  moreover have "contents ?q ps = contents q ps"
    using p ring_rep_dom [OF rep] by (intro contents_frame) auto
  ultimately show ?thesis using pop by auto
qed

subsection \<open>Removing any element\<close>

text \<open>What unlinking an element from the middle of \<open>xs @ p # ys\<close> leaves behind.\<close>

definition unlinked :: "JoinRingQueue \<Rightarrow> JoinRingQueue \<Rightarrow> addr list \<Rightarrow> bool" where
  "unlinked q q' ps \<longleftrightarrow> mhead q' = first_of ps null \<and> mtail q' = last_of ps null
     \<and> mcurr q' = mcurr q \<and> mcount q' = mcount q \<and> (\<exists>pr. seg (heap q') pr ps null)
     \<and> (\<forall>a. map_option content (heap q' a) = map_option content (heap q a))"

lemma Remove_unlink_head:
  assumes "mhead q = p" "mtail q = last_of ys p" "distinct (p # ys)" "null \<notin> set (p # ys)"
    and p: "heap q p = Some e" "next_el e = first_of ys null" and seg: "seg (heap q) pr ys null"
  shows "\<exists>q'. Remove_unlink p q = Inr q' \<and> unlinked q q' ys"
proof (cases ys)
  case Nil
  with assms show ?thesis by (auto simp: Remove_unlink_def unlinked_def)
next
  case (Cons y ys')
  with seg obtain f where f: "heap q y = Some f" by (auto split: option.splits)
  have "mtail q \<noteq> p" using assms(2,3) last_of_in [of ys p] Cons by auto
  moreover have "y \<noteq> null" "p \<noteq> null" using assms(4) Cons by auto
  ultimately have "Remove_unlink p q = Inr (q\<lparr>mhead := y, heap := (heap q)(y \<mapsto> f\<lparr>prev_el := null\<rparr>)\<rparr>)"
    using assms(1) p f Cons by (simp add: Remove_unlink_def load_valid modify_valid)
  moreover have "seg ((heap q)(y \<mapsto> f\<lparr>prev_el := null\<rparr>)) null ys null"
    using seg assms(3) f unfolding Cons by (intro seg_first_prev) auto
  ultimately show ?thesis using Cons assms(2) f by (auto simp: unlinked_def)
qed

lemma Remove_unlink_tail:
  assumes "mhead q = first_of (xs @ [x]) null" "mtail q = p" "distinct (xs @ [x, p])" "null \<notin> set (xs @ [x, p])"
    and p: "heap q p = Some e" "prev_el e = x" and seg: "seg (heap q) pr (xs @ [x]) p"
  shows "\<exists>q'. Remove_unlink p q = Inr q' \<and> unlinked q q' (xs @ [x])"
proof -
  from seg obtain f where f: "heap q x = Some f" by (auto simp: seg_append split: option.splits)
  have "mhead q \<noteq> p" using assms(1,3) first_of_in [of "xs @ [x]" null] by auto
  moreover have "x \<noteq> null" "p \<noteq> null" using assms(4) by auto
  ultimately have "Remove_unlink p q = Inr (q\<lparr>mtail := x, heap := (heap q)(x \<mapsto> f\<lparr>next_el := null\<rparr>)\<rparr>)"
    using assms(2) p f by (simp add: Remove_unlink_def load_valid modify_valid)
  moreover have "seg ((heap q)(x \<mapsto> f\<lparr>next_el := null\<rparr>)) pr (xs @ [x]) null"
    using seg assms(3) f by (intro seg_last_next) auto
  ultimately show ?thesis using assms(1) f by (auto simp: unlinked_def)
qed

lemma Remove_unlink_inner:
  assumes "mhead q = first_of (xs @ [x]) null" "mtail q = last_of (y # ys) null"
    and dist: "distinct (xs @ x # p # y # ys)" and nn: "null \<notin> set (xs @ x # p # y # ys)"
    and p: "heap q p = Some e" "prev_el e = x" "next_el e = y"
    and segs: "seg (heap q) pr (xs @ [x]) p" "seg (heap q) pr' (y # ys) null"
  shows "\<exists>q'. Remove_unlink p q = Inr q' \<and> unlinked q q' (xs @ x # y # ys)"
proof -
  from segs obtain f g where f: "heap q x = Some f" and g: "heap q y = Some g"
    by (auto simp: seg_append split: option.splits)
  let ?h = "(heap q)(x \<mapsto> f\<lparr>next_el := y\<rparr>, y \<mapsto> g\<lparr>prev_el := x\<rparr>)"
  have "mhead q \<noteq> p" using assms(1) dist first_of_in [of "xs @ [x]" null] by auto
  moreover have "mtail q \<noteq> p" using assms(2) dist last_of_in [of "y # ys" null] by auto
  moreover have "x \<noteq> null" "p \<noteq> null" "y \<noteq> null" "x \<noteq> p" "x \<noteq> y" using nn dist by auto
  ultimately have "Remove_unlink p q = Inr (q\<lparr>heap := ?h\<rparr>)"
    using p f g by (simp add: Remove_unlink_def load_valid modify_valid)
  moreover have "seg ((heap q)(x \<mapsto> f\<lparr>next_el := y\<rparr>)) pr (xs @ [x]) y"
    using segs(1) dist f by (intro seg_last_next) auto
  then have "seg ?h pr (xs @ [x]) y" using dist by (simp add: seg_append)
  moreover have "seg ?h x (y # ys) null"
    using segs(2) dist g by (intro seg_first_prev) auto
  ultimately show ?thesis
    using assms(1,2) f g \<open>x \<noteq> y\<close> seg_append [of ?h pr "xs @ [x]" "y # ys" null] by (auto simp: unlinked_def)
qed

lemma Remove_unlink_rep:
  assumes "mhead q = first_of (xs @ p # ys) null" "mtail q = last_of (xs @ p # ys) null"
    and "distinct (xs @ p # ys)" "null \<notin> set (xs @ p # ys)"
    and p: "heap q p = Some e" "prev_el e = last_of xs pr" "next_el e = first_of ys null"
    and "seg (heap q) pr xs p" "seg (heap q) pr' ys null"
  shows "\<exists>q'. Remove_unlink p q = Inr q' \<and> unlinked q q' (xs @ ys)"
proof (cases xs rule: rev_cases)
  case Nil
  with assms show ?thesis using Remove_unlink_head [of q p ys e pr'] by simp
next
  case (snoc xs' x)
  show ?thesis
  proof (cases ys)
    case Nil
    with assms snoc show ?thesis using Remove_unlink_tail [of q xs' x p e pr] by simp
  next
    case (Cons y ys')
    have "mhead q = first_of (xs' @ [x]) null" "mtail q = last_of (y # ys') null"
      using assms(1,2) snoc Cons by simp_all
    with assms snoc Cons show ?thesis using Remove_unlink_inner [of q xs' x y ys' p e pr pr'] by simp
  qed
qed

text \<open>
  Moving the cursor off the element that goes: the successor's backward link is rewritten early,
  the element itself and everything before it is untouched.
\<close>

lemma Remove_cursor_rep:
  assumes rep: "ring_rep q (xs @ p # ys)" and seg: "seg (heap q) pr (xs @ p # ys) null"
    and ok: "\<not> (mcurr q = p \<and> ys = [])"
  shows "\<exists>q1 pr'. Remove_cursor p q = Inr q1 \<and> mhead q1 = mhead q \<and> mtail q1 = mtail q \<and> mcount q1 = mcount q
    \<and> mcurr q1 = (if mcurr q = p then first_of ys null else mcurr q)
    \<and> heap q1 p = heap q p \<and> seg (heap q1) pr xs p \<and> seg (heap q1) pr' ys null
    \<and> (\<forall>a. map_option content (heap q1 a) = map_option content (heap q a))"
proof (cases "mcurr q = p")
  case False
  with seg show ?thesis by (auto simp: Remove_cursor_def elim!: seg_mid)
next
  case True
  from ok True obtain y ys' where ys: "ys = y # ys'" by (cases ys) auto
  from seg obtain e where e: "heap q p = Some e" "next_el e = y" and segs: "seg (heap q) pr xs p" "seg (heap q) p ys null"
    by (auto simp: ys elim!: seg_mid)
  from segs(2) obtain f where f: "heap q y = Some f" by (auto simp: ys split: option.splits)
  have dist: "distinct (xs @ p # y # ys')" and nn: "p \<noteq> null" "y \<noteq> null"
    using rep by (auto simp: ring_rep_def ys)
  let ?h = "(heap q)(y \<mapsto> f\<lparr>prev_el := prev_el e\<rparr>)"
  have "Remove_cursor p q = Inr (q\<lparr>mcurr := y, heap := ?h\<rparr>)"
    using True e f nn by (simp add: Remove_cursor_def load_valid modify_valid)
  moreover have "seg ?h (prev_el e) ys null"
    using segs(2) dist f unfolding ys by (intro seg_first_prev) auto
  moreover have "seg ?h pr xs p" using segs(1) dist by simp
  ultimately show ?thesis using True dist f by (auto simp: ys)
qed

lemma RemoveElement_rep:
  assumes rep: "ring_rep q (xs @ p # ys)" and ok: "\<not> (mcurr q = p \<and> ys = [])"
  shows "\<exists>q'. RemoveElement p q = Inr (True, q') \<and> ring_rep q' (xs @ ys)
    \<and> contents q' (xs @ ys) = contents q (xs @ ys)
    \<and> mcurr q' = (if mcurr q = p then first_of ys null else mcurr q) \<and> heap q' p = None"
proof -
  from rep obtain pr where seg: "seg (heap q) pr (xs @ p # ys) null" by (auto simp: ring_rep_def)
  then obtain e where e: "heap q p = Some e" "prev_el e = last_of xs pr" "next_el e = first_of ys null"
    by (auto elim!: seg_mid)
  from Remove_cursor_rep [OF rep seg ok] obtain q1 pr' where
    q1: "Remove_cursor p q = Inr q1" "mhead q1 = mhead q" "mtail q1 = mtail q" "mcount q1 = mcount q"
      "mcurr q1 = (if mcurr q = p then first_of ys null else mcurr q)" "heap q1 p = heap q p"
    and segs: "seg (heap q1) pr xs p" "seg (heap q1) pr' ys null"
    and c1: "\<forall>a. map_option content (heap q1 a) = map_option content (heap q a)" by blast
  have "\<exists>q2. Remove_unlink p q1 = Inr q2 \<and> unlinked q1 q2 (xs @ ys)"
    using rep q1 e segs by (intro Remove_unlink_rep [of q1 xs p ys e pr pr']) (auto simp: ring_rep_def)
  then obtain q2 where q2: "Remove_unlink p q1 = Inr q2" "unlinked q1 q2 (xs @ ys)" by blast
  then have c2: "map_option content (heap q2 a) = map_option content (heap q a)" for a
    using c1 by (simp add: unlinked_def)
  with e have "heap q2 p \<noteq> None" by (metis option.map_disc_iff option.distinct(1))
  then obtain e2 where e2: "heap q2 p = Some e2" by blast
  have "p \<noteq> null" "p \<notin> set (xs @ ys)" using rep by (auto simp: ring_rep_def)
  let ?q = "q2\<lparr>mcount := mcount q2 - 1, heap := (heap q2)(p := None)\<rparr>"
  have "RemoveElement p q = Inr (True, ?q)"
    using q1 q2 e2 \<open>p \<noteq> null\<close> ring_rep_head [OF rep] by (simp add: RemoveElement_def release_valid)
  moreover have "mcurr ?q = null \<or> mcurr ?q \<in> set (xs @ ys)"
    using rep q1 q2 first_of_in [of ys null] by (cases ys) (auto simp: unlinked_def ring_rep_def)
  then have "ring_rep ?q (xs @ ys)"
    using rep q1 q2 \<open>p \<notin> set (xs @ ys)\<close> by (auto simp: ring_rep_def unlinked_def)
  moreover have "contents ?q (xs @ ys) = contents q (xs @ ys)"
    using c2 \<open>p \<notin> set (xs @ ys)\<close> ring_rep_dom [OF rep] by (intro contents_frame) auto
  ultimately show ?thesis using q1 q2 by (auto simp: unlinked_def)
qed

lemma RemoveElement_tail_cursor:
  assumes rep: "ring_rep q (xs @ [p])" and cur: "mcurr q = p"
  shows "RemoveElement p q = Inl NullDeref"
proof -
  from rep obtain e where "heap q p = Some e" "next_el e = null"
    by (auto simp: ring_rep_def elim!: seg_mid)
  moreover have "p \<noteq> null" using rep by (auto simp: ring_rep_def)
  ultimately show ?thesis
    using cur ring_rep_head [OF rep] by (simp add: RemoveElement_def Remove_cursor_def load_valid)
qed

subsection \<open>The cursor\<close>

lemma ring_rep_cursor: "ring_rep q ps \<Longrightarrow> c = null \<or> c \<in> set ps \<Longrightarrow> ring_rep (q\<lparr>mcurr := c\<rparr>) ps"
  by (auto simp: ring_rep_def)

lemma NextElement_empty: "ring_rep q [] \<Longrightarrow> NextElement q = Inr (null, q)"
  by (simp add: NextElement_def ring_rep_def)

lemma NextElement_inner:
  assumes rep: "ring_rep q (xs @ p # y # ys)" and cur: "mcurr q = p"
  shows "NextElement q = Inr (p, q\<lparr>mcurr := y\<rparr>)"
proof -
  from rep obtain e where "heap q p = Some e" "next_el e = y" by (auto simp: ring_rep_def elim!: seg_mid)
  moreover have "p \<noteq> null" "p \<noteq> mtail q"
    using rep last_of_in [of "y # ys" p] by (auto simp: ring_rep_def)
  ultimately show ?thesis using cur by (simp add: NextElement_def load_valid Let_def)
qed

lemma NextElement_wrap:
  assumes rep: "ring_rep q (p # ps)" and cur: "mcurr q = null \<or> mcurr q = last_of ps p"
  shows "NextElement q = Inr (p, q\<lparr>mcurr := first_of ps null\<rparr>)"
proof -
  from rep obtain e where "heap q p = Some e" "next_el e = first_of ps null"
    by (auto simp: ring_rep_def split: option.splits)
  moreover have "p \<noteq> null" "mhead q = p" "mtail q = last_of ps p" using rep by (auto simp: ring_rep_def)
  ultimately show ?thesis using cur by (auto simp: NextElement_def load_valid Let_def)
qed

lemma NextElement_rep:
  assumes rep: "ring_rep q ps"
  shows "\<exists>r c. NextElement q = Inr (r, q\<lparr>mcurr := c\<rparr>) \<and> ring_rep (q\<lparr>mcurr := c\<rparr>) ps
    \<and> (r = null \<longleftrightarrow> ps = []) \<and> (ps \<noteq> [] \<longrightarrow> r \<in> set ps)"
proof (cases ps)
  case Nil
  with rep have "NextElement q = Inr (null, q\<lparr>mcurr := mcurr q\<rparr>)" by (simp add: NextElement_empty)
  with rep Nil show ?thesis by (intro exI [of _ null] exI [of _ "mcurr q"]) simp
next
  case (Cons p ps')
  have nn: "null \<notin> set ps" using rep by (simp add: ring_rep_def)
  consider (wrap) "mcurr q = null \<or> mcurr q = last_of ps' p" | (inner) "mcurr q \<in> set ps" "mcurr q \<noteq> last_of ps' p"
    using rep by (auto simp: ring_rep_def)
  then show ?thesis
  proof cases
    case wrap
    then show ?thesis
      using NextElement_wrap [of q p ps'] rep Cons nn first_of_in [of ps' null]
      by (cases ps') (auto intro!: ring_rep_cursor)
  next
    case inner
    then obtain xs ys where split: "ps = xs @ mcurr q # ys" by (meson split_list)
    with inner Cons obtain y ys' where "ys = y # ys'"
      by (cases ys) (metis append_Nil2 last_of_append last_of_simps(1,2), blast)
    then show ?thesis
      using NextElement_inner [of q xs "mcurr q" y ys'] rep split nn by (auto intro!: ring_rep_cursor)
  qed
qed

lemma SpecialElement_rep:
  assumes rep: "ring_rep q (xs @ p # y # ys)"
  shows "SpecialElement p q = Inr (y, q\<lparr>mcurr := first_of ys null\<rparr>)"
proof -
  from rep obtain pr where seg: "seg (heap q) pr (xs @ p # y # ys) null" by (auto simp: ring_rep_def)
  then obtain e f where "heap q p = Some e" "next_el e = y" "heap q y = Some f" "next_el f = first_of ys null"
    by (auto simp: seg_append split: option.splits)
  moreover have "p \<noteq> null" "y \<noteq> null" using rep by (auto simp: ring_rep_def)
  ultimately show ?thesis by (simp add: SpecialElement_def load_valid)
qed

lemma SpecialElement_null:
  assumes rep: "ring_rep q (p # ps)"
  shows "SpecialElement null q = Inr (p, q\<lparr>mcurr := first_of ps null\<rparr>)"
proof -
  from rep obtain e where "heap q p = Some e" "next_el e = first_of ps null" "mhead q = p" "p \<noteq> null"
    by (auto simp: ring_rep_def split: option.splits)
  then show ?thesis by (simp add: SpecialElement_def load_valid)
qed

lemma SpecialElement_tail:
  assumes rep: "ring_rep q (xs @ [p])"
  shows "SpecialElement p q = Inl NullDeref"
proof -
  from rep obtain e where "heap q p = Some e" "next_el e = null" by (auto simp: ring_rep_def elim!: seg_mid)
  moreover have "p \<noteq> null" using rep by (auto simp: ring_rep_def)
  ultimately show ?thesis by (simp add: SpecialElement_def load_valid)
qed

lemma SpecialElement_empty: "ring_rep q [] \<Longrightarrow> SpecialElement null q = Inl NullDeref"
  by (simp add: SpecialElement_def ring_rep_def)

subsection \<open>Clearing\<close>

lemma ClearAll_loop_rep:
  "ring_rep q ps \<Longrightarrow> \<exists>q'. ClearAll_loop q = Some (Inr q') \<and> ring_rep q' [] \<and> dom (heap q') = dom (heap q) - set ps"
proof (induction ps arbitrary: q)
  case Nil
  then have "ClearAll_loop q = Some (Inr q)" by (simp add: ClearAll_loop.simps ring_rep_head)
  with Nil show ?case by auto
next
  case (Cons p ps)
  from PopFront_rep [OF Cons.prems] obtain q1 where q1: "PopFront q = Inr q1" "ring_rep q1 ps" "heap q1 = (heap q)(p := None)"
    by blast
  from Cons.IH [OF q1(2)] obtain q' where "ClearAll_loop q1 = Some (Inr q')" "ring_rep q' []"
    "dom (heap q') = dom (heap q1) - set ps" by blast
  with q1 show ?case
    by (subst ClearAll_loop.simps) (auto simp: ring_rep_head [OF Cons.prems])
qed

section \<open>Reachable queues\<close>

text \<open>
  The histories of a queue: allocation returns a free address or null, the elements handed to
  \<^verbatim>\<open>RemoveElement\<close> and \<^verbatim>\<open>SpecialElement\<close> are ones the queue holds. The second argument is the abstract
  queue.
\<close>

inductive ring_reach :: "JoinRingQueue \<Rightarrow> addr list \<Rightarrow> bool" where
  new: "ring_reach (new_JoinRingQueue h) []"
| push: "ring_reach q ps \<Longrightarrow> heap q p = None \<Longrightarrow> length ps + 1 < 2 ^ 32 \<Longrightarrow> PushBack p c q = Inr q' \<Longrightarrow>
     ring_reach q' (if p = null then ps else ps @ [p])"
| pop: "ring_reach q ps \<Longrightarrow> PopFront q = Inr q' \<Longrightarrow> ring_reach q' (tl ps)"
| remove: "ring_reach q ps \<Longrightarrow> p \<in> set ps \<Longrightarrow> RemoveElement p q = Inr (r, q') \<Longrightarrow> ring_reach q' (remove1 p ps)"
| nextel: "ring_reach q ps \<Longrightarrow> NextElement q = Inr (r, q') \<Longrightarrow> ring_reach q' ps"
| special: "ring_reach q ps \<Longrightarrow> p = null \<or> p \<in> set ps \<Longrightarrow> SpecialElement p q = Inr (r, q') \<Longrightarrow> ring_reach q' ps"
| clear: "ring_reach q ps \<Longrightarrow> ClearAllElements q = Some (Inr (r, q')) \<Longrightarrow> ring_reach q' []"

inductive_cases ring_reach_newE: "ring_reach (new_JoinRingQueue h) ps"

lemma PopFront_empty: "ring_rep q [] \<Longrightarrow> PopFront q = Inr q"
  using ring_rep_count [of q "[]"] by (simp add: PopFront_def)

lemma remove1_split: "distinct (xs @ p # ys) \<Longrightarrow> remove1 p (xs @ p # ys) = xs @ ys"
  by (simp add: remove1_append)

lemma special_preserves:
  assumes rep: "ring_rep q ps" and p: "p = null \<or> p \<in> set ps" and "SpecialElement p q = Inr (r, q')"
  shows "ring_rep q' ps"
proof (cases "p = null")
  case True
  with assms show ?thesis
    using SpecialElement_empty [of q] SpecialElement_null [of q "hd ps" "tl ps"] first_of_in [of "tl ps" null]
    by (cases ps) (auto intro!: ring_rep_cursor split: if_splits simp: first_of_def list.case_eq_if)
next
  case False
  with p obtain xs ys where ps: "ps = xs @ p # ys" by (meson split_list)
  with assms show ?thesis
    using SpecialElement_tail [of q xs p] SpecialElement_rep [of q xs p "hd ys" "tl ys"] first_of_in [of "tl ys" null]
    by (cases ys) (auto intro!: ring_rep_cursor simp: first_of_def list.case_eq_if)
qed

lemma remove_preserves:
  assumes rep: "ring_rep q ps" and p: "p \<in> set ps" and "RemoveElement p q = Inr (r, q')"
  shows "ring_rep q' (remove1 p ps) \<and> r"
proof -
  from p obtain xs ys where ps: "ps = xs @ p # ys" by (meson split_list)
  have "remove1 p ps = xs @ ys" using rep ps by (auto simp: ring_rep_def remove1_append)
  with assms ps show ?thesis
    using RemoveElement_rep [of q xs p ys] RemoveElement_tail_cursor [of q xs p] by auto
qed

lemma ring_reach_invariant:
  assumes "ring_reach q ps"
  shows "ring_rep q ps"
  using assms
proof induction
  case (new h)
  show ?case by (rule ring_rep_new)
next
  case (push q ps p c q')
  show ?case
  proof (cases "p = null")
    case True
    with push show ?thesis by (simp add: PushBack_def)
  next
    case False
    with push show ?thesis using PushBack_rep [of q ps p c] by auto
  qed
next
  case (pop q ps q')
  then show ?case using PopFront_rep [of q] PopFront_empty [of q] by (cases ps) force+
next
  case (remove q ps p r q')
  then show ?case using remove_preserves by blast
next
  case (nextel q ps r q')
  then show ?case using NextElement_rep [of q ps] by auto
next
  case (special q ps p r q')
  then show ?case using special_preserves by blast
next
  case (clear q ps r q')
  then show ?case using ClearAll_loop_rep [of q ps] by (auto simp: ClearAllElements_def)
qed

text \<open>
  C2. Refinement: after any history of operations the pointers in the heap represent exactly the
  list that the same operations produce on an abstract queue. Distinct allocated elements, linked
  both ways, head, tail and 32-bit count in agreement, and the cursor null or on an element.
\<close>

theorem ring_reach_rep:
  assumes "ring_reach q ps"
  shows "ring_rep q ps"
  using assms by (rule ring_reach_invariant)

definition ring_example :: JoinRingQueue where
  \<comment> \<open>two elements, at 16 and 32, the cursor on the second after one \<^verbatim>\<open>NextElement\<close>\<close>
  "ring_example = \<lparr>mhead = 16, mtail = 32, mcurr = 32, mcount = 2,
     heap = [16 \<mapsto> \<lparr>next_el = 32, prev_el = 0, content = 100\<rparr>, 32 \<mapsto> \<lparr>next_el = 0, prev_el = 16, content = 200\<rparr>]\<rparr>"

lemma ring_example_reach: "ring_reach ring_example [16, 32]"
proof -
  let ?q1 = "\<lparr>mhead = 16, mtail = 16, mcurr = 0, mcount = 1, heap = [16 \<mapsto> \<lparr>next_el = 0, prev_el = 0, content = 100\<rparr>]\<rparr>"
  let ?q2 = "ring_example\<lparr>mcurr := 0\<rparr>"
  have "ring_reach ?q1 (if (16::addr) = null then [] else [] @ [16])"
    by (rule ring_reach.push [OF ring_reach.new [of Map.empty], of 16 100])
      (simp_all add: new_JoinRingQueue_def PushBack_def)
  then have q1: "ring_reach ?q1 [16]" by simp
  have "ring_reach ?q2 (if (32::addr) = null then [16] else [16] @ [32])"
    by (rule ring_reach.push [OF q1, of 32 200])
      (simp_all add: PushBack_def modify_def load_def ring_example_def fun_upd_twist)
  then have q2: "ring_reach ?q2 [16, 32]" by simp
  show ?thesis
    by (rule ring_reach.nextel [OF q2, of 16]) (simp add: NextElement_def load_def ring_example_def)
qed

theorem ring_reach_rep_witness: "ring_rep ring_example [16, 32]"
  using ring_example_reach by (rule ring_reach_rep)

text \<open>
  Memory safety: in a reachable queue, enqueueing, dequeueing and advancing the cursor never
  touch a null or freed pointer, and the cursor hands out an element of the queue (null exactly
  when the queue is empty).
\<close>

theorem ring_no_fault:
  assumes "ring_reach q ps"
  shows "(\<exists>q'. PopFront q = Inr q' \<and> contents q' (tl ps) = tl (contents q ps)) \<and>
    (heap q p = None \<and> length ps + 1 < 2 ^ 32 \<longrightarrow> (\<exists>q'. PushBack p c q = Inr q' \<and>
       (p \<noteq> null \<longrightarrow> contents q' (ps @ [p]) = contents q ps @ [c]))) \<and>
    (\<exists>r q'. NextElement q = Inr (r, q') \<and> (if ps = [] then r = null else r \<in> set ps))"
proof -
  note rep = ring_reach_invariant [OF assms]
  have "\<exists>q'. PopFront q = Inr q' \<and> contents q' (tl ps) = tl (contents q ps)"
    using rep PopFront_rep [of q "hd ps" "tl ps"] PopFront_empty [of q] by (cases ps) (auto simp: contents_def)
  moreover have "\<exists>q'. PushBack p c q = Inr q' \<and> (p \<noteq> null \<longrightarrow> contents q' (ps @ [p]) = contents q ps @ [c])"
    if "heap q p = None" "length ps + 1 < 2 ^ 32"
  proof (cases "p = null")
    case True
    then show ?thesis by (simp add: PushBack_def)
  next
    case False
    with that show ?thesis using PushBack_rep [OF rep, of p c] by auto
  qed
  moreover have "\<exists>r q'. NextElement q = Inr (r, q') \<and> (if ps = [] then r = null else r \<in> set ps)"
    using NextElement_rep [OF rep] by auto
  ultimately show ?thesis by blast
qed

theorem ring_no_fault_witness:
  "\<exists>r q'. NextElement ring_example = Inr (r, q') \<and> r \<in> {16, 32}"
  using ring_no_fault [OF ring_example_reach, of 48 0] by simp

text \<open>
  C3. \<^verbatim>\<open>RemoveElement\<close> of an element of a reachable queue dereferences a null pointer exactly when
  the element is the tail and the cursor stands on it; in every other case it succeeds, unlinks
  exactly that element, frees it, and moves the cursor to its successor if it stood there.
\<close>

theorem RemoveElement_exact:
  assumes "ring_reach q (xs @ p # ys)"
  shows "if mcurr q = p \<and> ys = [] then RemoveElement p q = Inl NullDeref
    else \<exists>q'. RemoveElement p q = Inr (True, q') \<and> ring_rep q' (xs @ ys)
      \<and> contents q' (xs @ ys) = contents q (xs @ ys)
      \<and> mcurr q' = (if mcurr q = p then first_of ys null else mcurr q) \<and> heap q' p = None"
  using RemoveElement_rep [OF ring_reach_invariant [OF assms]]
    RemoveElement_tail_cursor [of q xs p] ring_reach_invariant [OF assms] by auto

theorem RemoveElement_exact_witness: "RemoveElement 32 ring_example = Inl NullDeref"
  using RemoveElement_exact [of ring_example "[16]" 32 "[]"] ring_example_reach
  by (simp add: ring_example_def)

text \<open>
  \<^verbatim>\<open>SpecialElement\<close> positions the cursor and returns the element after the given one (the head
  for a null argument); it dereferences a null pointer exactly when there is no such element: an
  empty queue, or the tail as argument.
\<close>

theorem SpecialElement_exact:
  assumes "ring_reach q ps"
  shows "(SpecialElement null q = (case ps of [] \<Rightarrow> Inl NullDeref
      | p # ps' \<Rightarrow> Inr (p, q\<lparr>mcurr := first_of ps' null\<rparr>))) \<and>
    (\<forall>xs p ys. ps = xs @ p # ys \<longrightarrow> SpecialElement p q = (case ys of [] \<Rightarrow> Inl NullDeref
      | y # ys' \<Rightarrow> Inr (y, q\<lparr>mcurr := first_of ys' null\<rparr>)))"
  using ring_reach_invariant [OF assms] SpecialElement_empty SpecialElement_null SpecialElement_tail SpecialElement_rep
  by (auto split: list.split)

theorem SpecialElement_exact_witness: "SpecialElement 16 ring_example = Inr (32, ring_example\<lparr>mcurr := 0\<rparr>)"
  using SpecialElement_exact [OF ring_example_reach] by (force dest: spec [of _ "[]"])

text \<open>
  C22. \<^verbatim>\<open>ClearAllElements\<close> terminates on every reachable queue, returns true, empties the queue and
  frees exactly its elements, each once.
\<close>

theorem ClearAllElements_terminates:
  assumes "ring_reach q ps"
  shows "\<exists>q'. ClearAllElements q = Some (Inr (True, q')) \<and> ring_rep q' [] \<and> dom (heap q') = dom (heap q) - set ps"
  using ClearAll_loop_rep [OF ring_reach_invariant [OF assms]] by (auto simp: ClearAllElements_def)

theorem ClearAllElements_terminates_witness:
  "\<exists>q'. ClearAllElements ring_example = Some (Inr (True, q')) \<and> dom (heap q') = {}"
  using ClearAllElements_terminates [OF ring_example_reach] by (auto simp: ring_example_def)

section \<open>Polling the nodes\<close>

text \<open>The elements handed out by successive calls of \<^verbatim>\<open>NextElement\<close>.\<close>

primrec poll_n :: "nat \<Rightarrow> JoinRingQueue \<Rightarrow> (addr list \<times> JoinRingQueue) result" where
  "poll_n 0 q = Inr ([], q)"
| "poll_n (Suc k) q = bindE (NextElement q) (\<lambda>(r, q1). bindE (poll_n k q1) (\<lambda>(rs, q2). Inr (r # rs, q2)))"

lemma poll_step:
  assumes rep: "ring_rep q zs" and len: "length zs = Suc m" "0 < m"
    and start: "i mod m = 0 \<Longrightarrow> mcurr q = null \<or> mcurr q = last zs"
    and inside: "i mod m \<noteq> 0 \<Longrightarrow> mcurr q = zs ! (i mod m)"
  shows "NextElement q = Inr (zs ! (i mod m), q\<lparr>mcurr := zs ! Suc (i mod m)\<rparr>)"
proof (cases "i mod m = 0")
  case True
  obtain p ps where zs: "zs = p # ps" using len(1) by (cases zs) auto
  moreover have "last zs = last_of ps p" by (simp add: zs last_of_def)
  moreover have "first_of ps null = ps ! 0" using len zs by (cases ps) auto
  ultimately show ?thesis using NextElement_wrap [of q p ps] rep start [OF True] True by simp
next
  case False
  have lt: "i mod m < m" using len(2) by simp
  then have "zs = take (i mod m) zs @ zs ! (i mod m) # zs ! Suc (i mod m) # drop (Suc (Suc (i mod m))) zs"
    using len(1) by (simp add: Cons_nth_drop_Suc id_take_nth_drop)
  then show ?thesis using NextElement_inner inside [OF False] rep by metis
qed

lemma mod_Suc_cases: "0 < m \<Longrightarrow> Suc i mod m = (if Suc (i mod m) = m then 0 else Suc (i mod m))" for m :: nat
  by (simp add: mod_Suc)

lemma poll_n_from:
  assumes "ring_rep q zs" "length zs = Suc m" "0 < m"
    and "i mod m = 0 \<Longrightarrow> mcurr q = null \<or> mcurr q = last zs"
    and "i mod m \<noteq> 0 \<Longrightarrow> mcurr q = zs ! (i mod m)"
  shows "\<exists>q'. poll_n k q = Inr (map (\<lambda>j. zs ! (j mod m)) [i..<i + k], q') \<and> ring_rep q' zs"
  using assms
proof (induction k arbitrary: i q)
  case 0
  then show ?case by simp
next
  case (Suc k)
  let ?q1 = "q\<lparr>mcurr := zs ! Suc (i mod m)\<rparr>"
  have lt: "Suc (i mod m) < length zs" using Suc.prems(2,3) by simp
  have rep1: "ring_rep ?q1 zs" using Suc.prems(1) lt by (intro ring_rep_cursor) auto
  have wrap: "mcurr ?q1 = null \<or> mcurr ?q1 = last zs" if "Suc i mod m = 0"
    using that Suc.prems(2,3) by (cases zs rule: rev_cases) (auto simp: mod_Suc_cases split: if_splits)
  have inner: "mcurr ?q1 = zs ! (Suc i mod m)" if "Suc i mod m \<noteq> 0"
    using that Suc.prems(3) by (auto simp: mod_Suc_cases split: if_splits)
  from Suc.IH [OF rep1 Suc.prems(2,3) wrap inner]
  obtain q' where "poll_n k ?q1 = Inr (map (\<lambda>j. zs ! (j mod m)) [Suc i..<Suc i + k], q')" "ring_rep q' zs"
    by blast
  moreover have "[i..<i + Suc k] = i # [Suc i..<Suc i + k]" by (simp add: upt_conv_Cons del: upt_Suc)
  ultimately show ?case using poll_step [OF Suc.prems] by (simp del: upt_Suc)
qed

text \<open>
  C12. Polling a queue of at least two nodes from a reset cursor visits all elements but the last in
  order, round and round: call number \<open>j\<close> returns element \<open>j mod (n - 1)\<close> of the \<open>n\<close>. Each of these is
  served once in every \<open>n - 1\<close> calls; the tail is never served, although the queue is documented to
  retry every node in turn.
\<close>

theorem poll_round_robin:
  assumes "ring_reach q zs" and "2 \<le> length zs" and "mcurr q = null \<or> mcurr q = last zs"
  shows "\<exists>q'. poll_n k q = Inr (map (\<lambda>j. zs ! (j mod (length zs - 1))) [0..<k], q')
    \<and> last zs \<notin> set (map (\<lambda>j. zs ! (j mod (length zs - 1))) [0..<k])"
proof -
  let ?m = "length zs - 1"
  note rep = ring_reach_invariant [OF assms(1)]
  have m: "length zs = Suc ?m" "0 < ?m" using assms(2) by auto
  have "last zs = zs ! ?m" using assms(2) by (simp add: last_conv_nth flip: length_greater_0_conv)
  moreover have "zs ! (j mod ?m) \<noteq> zs ! ?m" for j
  proof -
    have "distinct zs" using rep by (simp add: ring_rep_def)
    moreover have "j mod ?m < ?m" using m(2) by simp
    ultimately show ?thesis using m(1) by (simp add: nth_eq_iff_index_eq)
  qed
  ultimately show ?thesis
    using poll_n_from [OF rep m, of 0 k] assms(3) by fastforce
qed

theorem poll_round_robin_witness:
  "\<exists>q'. poll_n 3 ring_example = Inr ([16, 16, 16], q')"
  using poll_round_robin [OF ring_example_reach, of 3] by (auto simp: ring_example_def upt_rec)

section \<open>The queue contract\<close>

definition ring_room :: "JoinRingQueue \<Rightarrow> addr list \<Rightarrow> bool" where
  "ring_room q qs \<longleftrightarrow> distinct qs \<and> null \<notin> set qs \<and> set qs \<inter> dom (heap q) = {}
     \<and> unat (mcount q) + length qs < 2 ^ 32"

lemma ring_rep_unat_count: "ring_rep q ps \<Longrightarrow> unat (mcount q) = length ps"
  by (auto simp: ring_rep_def unsigned_of_nat take_bit_eq_mod)

interpretation ring: linked_queue ring_rep ring_room "\<lambda>p. PushBack p (c p)" PopFront for c
proof
  fix q ps p qs
  assume rep: "ring_rep q ps" and room: "ring_room q (p # qs)"
  then have "p \<noteq> null" "heap q p = None" "length ps + 1 < 2 ^ 32"
    by (auto simp: ring_room_def ring_rep_unat_count)
  from PushBack_rep [OF rep this] obtain q' where q': "PushBack p (c p) q = Inr q'" "ring_rep q' (ps @ [p])"
    "dom (heap q') = insert p (dom (heap q))" by blast
  moreover have "ring_room q' qs"
    using room q' rep by (auto simp: ring_room_def ring_rep_unat_count)
  ultimately show "\<exists>s'. PushBack p (c p) q = Inr s' \<and> ring_rep s' (ps @ [p]) \<and> ring_room s' qs" by blast
next
  fix q p ps
  assume "ring_rep q (p # ps)"
  then show "\<exists>s'. PopFront q = Inr s' \<and> ring_rep s' ps" using PopFront_rep by blast
qed

text \<open>
  First in, first out: enqueueing freshly allocated nodes behind \<open>ps\<close> and dequeueing as many as
  were there before leaves exactly the new nodes, in the order they came, with no fault on the way.
\<close>

theorem ring_fifo:
  assumes "ring_reach q ps" and "ring_room q qs"
  shows "\<exists>q'. bindE (push_all (\<lambda>p. PushBack p (c p)) qs q) (pop_n PopFront (length ps)) = Inr q' \<and> ring_rep q' qs"
  by (rule ring.fifo [OF ring_reach_invariant [OF assms(1)] assms(2)])

theorem ring_fifo_witness:
  "\<exists>q'. bindE (push_all (\<lambda>p. PushBack p 7) [48, 64] ring_example) (pop_n PopFront (length [16::addr, 32])) = Inr q'
     \<and> ring_rep q' [48, 64]"
proof -
  have "ring_room ring_example [48, 64]" by (simp add: ring_room_def ring_example_def)
  then show ?thesis by (rule ring_fifo [OF ring_example_reach])
qed

end
