(* ===== verification/Socket_Base.thy ===== *)
theory Socket_Base
  imports Prelude
begin

text \<open>
  What the socket programs of \<^verbatim>\<open>linux_socket_example\<close> share: the global tables, the system calls
  they make (recorded in a trace, with their results supplied by the environment), the hexadecimal
  dump of received data, and the two array loops that allocate and clear a client slot.
\<close>

section \<open>Constants and addresses\<close>

definition MAX_ACCEPT :: nat where
  "MAX_ACCEPT = 5"

definition BUFFER_SIZE :: nat where
  "BUFFER_SIZE = 1024"

record sockaddr_in =
  sin_family :: u16
  sin_port :: u16
  s_addr :: u32

definition zero_addr :: sockaddr_in where
  "zero_addr = \<lparr>sin_family = 0, sin_port = 0, s_addr = 0\<rparr>"

definition AF_INET :: u16 where
  "AF_INET = 2"

text \<open>Network byte order on a little-endian host.\<close>

definition htons :: "u16 \<Rightarrow> u16" where
  "htons x = push_bit 8 x OR drop_bit 8 x"

text \<open>An IPv4 address in memory order, read as a little-endian word.\<close>

definition ipv4 :: "u8 \<Rightarrow> u8 \<Rightarrow> u8 \<Rightarrow> u8 \<Rightarrow> u32" where
  "ipv4 a b c d = ucast a OR push_bit 8 (ucast b) OR push_bit 16 (ucast c) OR push_bit 24 (ucast d)"

section \<open>System calls as observed\<close>

datatype syscall =
    Socket int
  | Bind int sockaddr_in
  | Listen int nat
  | FcntlNonblock int
  | SetReuseAddr int
  | Select int "int list"
  | Poll "int list"
  | EpollCreate nat
  | EpollAdd int int
  | EpollDel int int
  | EpollWait int
  | Connect int sockaddr_in
  | GetSockError int
  | Accept int
  | Read int
  | Recv int
  | RecvFrom int
  | SendTo int "u8 list" sockaddr_in
  | Close int
  | Print string

text \<open>Descriptor sets: a descriptor outside 0 to 1023 is written outside the set.\<close>

definition FD_SETSIZE :: int where
  "FD_SETSIZE = 1024"

definition FD_SET :: "int \<Rightarrow> int list \<Rightarrow> int list result" where
  "FD_SET fd fdr = (if 0 \<le> fd \<and> fd < FD_SETSIZE then Inr (List.insert fd fdr) else Inl OutOfBounds)"

section \<open>Server state\<close>

record server =
  listen_socketFd :: int
  maxfd :: int
  client_fd :: "int list"
  client_addr :: "sockaddr_in list"
  buffer :: "u8 list"
  trace :: "syscall list"

definition emit :: "syscall \<Rightarrow> 'a server_scheme \<Rightarrow> 'a server_scheme" where
  "emit c s = s\<lparr>trace := trace s @ [c]\<rparr>"

text \<open>Static storage starts zeroed: before any initialisation every slot holds descriptor 0.\<close>

definition static_server :: server where
  "static_server = \<lparr>listen_socketFd = 0, maxfd = 0, client_fd = replicate (MAX_ACCEPT + 1) 0,
     client_addr = replicate (MAX_ACCEPT + 1) zero_addr, buffer = replicate BUFFER_SIZE 0, trace = []\<rparr>"

definition getSocketFd :: "'a server_scheme \<Rightarrow> int" where
  "getSocketFd s = listen_socketFd s"

text \<open>The initialisation loop runs to \<^verbatim>\<open>MAX_ACCEPT\<close>, one short of the arrays' length.\<close>

definition reset_slot :: "nat \<Rightarrow> 'a server_scheme \<Rightarrow> 'a server_scheme" where
  "reset_slot i s = s\<lparr>client_fd := (client_fd s)[i := -1], client_addr := (client_addr s)[i := zero_addr]\<rparr>"

definition reset_table :: "'a server_scheme \<Rightarrow> 'a server_scheme" where
  "reset_table s = fold reset_slot [0..<MAX_ACCEPT] s"

section \<open>Client slots\<close>

text \<open>The two loops with \<^verbatim>\<open>break\<close>: overwrite the first slot that holds a value.\<close>

fun replace_first :: "'v \<Rightarrow> 'v \<Rightarrow> 'v list \<Rightarrow> 'v list" where
  "replace_first x y [] = []"
| "replace_first x y (z # zs) = (if z = x then y # zs else z # replace_first x y zs)"

definition slot_alloc :: "int \<Rightarrow> int list \<Rightarrow> int list" where
  "slot_alloc new_server_socket t = replace_first (-1) new_server_socket t"

definition slot_clear :: "int \<Rightarrow> int list \<Rightarrow> int list" where
  "slot_clear fd t = replace_first fd (-1) t"

section \<open>The hexadecimal dump\<close>

definition hex_digit :: "nat \<Rightarrow> char" where
  "hex_digit n = char_of (if n < 10 then 48 + n else 87 + n)"

definition hex2 :: "u8 \<Rightarrow> string" where
  "hex2 b = [hex_digit (unat b div 16), hex_digit (unat b mod 16)]"

fun dump_loop :: "nat \<Rightarrow> u8 list \<Rightarrow> string result" where
  "dump_loop 0 data = Inr []"
| "dump_loop (Suc len) [] = Inl OutOfBounds"
| "dump_loop (Suc len) (b # data) = bindE (dump_loop len data) (\<lambda>out. Inr (hex2 b @ '' '' @ out))"

definition handleReceiveData :: "u8 list \<Rightarrow> nat \<Rightarrow> 'a server_scheme \<Rightarrow> 'a server_scheme result" where
  "handleReceiveData data len s =
     bindE (dump_loop len data) (\<lambda>out. Inr (emit (Print (''['' @ out @ '']'' @ [CHR 0x0D, CHR 0x0A])) s))"

definition fill_buffer :: "u8 list \<Rightarrow> u8 list" where
  \<comment> \<open>\<^verbatim>\<open>bzero\<close> followed by a read of at most \<open>BUFFER_SIZE\<close> bytes\<close>
  "fill_buffer data = take BUFFER_SIZE data @ replicate (BUFFER_SIZE - length data) 0"

section \<open>The bodies the select and poll loops share\<close>

text \<open>
  \<^verbatim>\<open>accept\<close> returned \<open>new_server_socket\<close> and, on success, \<open>peer\<close>, for the slot \<open>m\<close> being served; the
  test is for a value other than 0, so the -1 of a failed call goes through the allocation too.
\<close>

definition accept_client :: "int \<Rightarrow> sockaddr_in \<Rightarrow> nat \<Rightarrow> server \<Rightarrow> server" where
  "accept_client new_server_socket peer m s =
     (let s = emit (Accept (listen_socketFd s)) s;
          s = (if new_server_socket \<ge> 0 then s\<lparr>client_addr := (client_addr s)[m := peer]\<rparr> else s) in
      if new_server_socket \<noteq> 0 then
        (emit (FcntlNonblock new_server_socket) s)\<lparr>client_fd := slot_alloc new_server_socket (client_fd s)\<rparr>
      else s)"

definition receive_client :: "int \<Rightarrow> u8 list \<Rightarrow> nat \<Rightarrow> server \<Rightarrow> server result" where
  "receive_client readlength data m s =
     (let s = emit (Read (client_fd s ! m)) (s\<lparr>buffer := fill_buffer data\<rparr>) in
      if readlength < 0 then
        let s = s\<lparr>client_fd := slot_clear (client_fd s ! m) (client_fd s)\<rparr>
        in Inr (emit (Close (client_fd s ! m)) s)
      else handleReceiveData (buffer s) (nat readlength) s)"

section \<open>Lemmas\<close>

lemma replace_first_absent: "x \<notin> set xs \<Longrightarrow> replace_first x y xs = xs"
  by (induction xs) auto

lemma length_replace_first [simp]: "length (replace_first x y xs) = length xs"
  by (induction xs) auto

lemma length_slots [simp]: "length (slot_alloc fd t) = length t" "length (slot_clear fd t) = length t"
  by (simp_all add: slot_alloc_def slot_clear_def)

lemma replace_first_split:
  "x \<in> set xs \<Longrightarrow> \<exists>as bs. xs = as @ x # bs \<and> x \<notin> set as \<and> replace_first x y xs = as @ y # bs"
proof (induction xs)
  case Nil
  then show ?case by simp
next
  case (Cons z zs)
  show ?case
  proof (cases "z = x")
    case True
    then show ?thesis by (intro exI [of _ "[]"] exI [of _ zs]) simp
  next
    case False
    with Cons obtain as bs where "zs = as @ x # bs" "x \<notin> set as" "replace_first x y zs = as @ y # bs" by auto
    with False show ?thesis by (intro exI [of _ "z # as"] exI [of _ bs]) simp
  qed
qed

lemma replace_first_nth:
  "replace_first x y xs ! i = (if i < length xs \<and> xs ! i = x \<and> (\<forall>j < i. xs ! j \<noteq> x) then y else xs ! i)"
proof (induction xs arbitrary: i)
  case Nil
  then show ?case by simp
next
  case (Cons z zs)
  show ?case by (cases i) (auto simp: Cons.IH All_less_Suc2)
qed

lemma mset_replace_first: "x \<in> set xs \<Longrightarrow> count_list (replace_first x y xs) z + (if z = x then 1 else 0) = count_list xs z + (if z = y then 1 else 0)"
  by (induction xs) auto

lemma replace_first_at: "i < length xs \<Longrightarrow> (\<And>j. j < i \<Longrightarrow> xs ! j \<noteq> xs ! i) \<Longrightarrow> replace_first (xs ! i) y xs = xs[i := y]"
proof (induction xs arbitrary: i)
  case Nil
  then show ?case by simp
next
  case (Cons z zs)
  show ?case
  proof (cases i)
    case 0
    then show ?thesis by simp
  next
    case (Suc n)
    have "z \<noteq> zs ! n" using Cons.prems(2) [of 0] Suc by simp
    moreover have "zs ! j \<noteq> zs ! n" if "j < n" for j using Cons.prems(2) [of "Suc j"] Suc that by simp
    ultimately show ?thesis using Cons Suc by simp
  qed
qed

lemma replace_first_cases:
  obtains (absent) "x \<notin> set xs" "replace_first x y xs = xs"
  | (found) i where "i < length xs" "xs ! i = x" "\<And>j. j < i \<Longrightarrow> xs ! j \<noteq> x" "replace_first x y xs = xs[i := y]"
proof (cases "x \<in> set xs")
  case False
  then show ?thesis by (intro absent replace_first_absent)
next
  case True
  then obtain as bs where "xs = as @ x # bs" "x \<notin> set as" "replace_first x y xs = as @ y # bs"
    using replace_first_split by metis
  then show ?thesis by (intro found [of "length as"]) (auto simp: nth_append)
qed

lemma length_fill_buffer [simp]: "length (fill_buffer data) = BUFFER_SIZE"
  by (simp add: fill_buffer_def)

lemma dump_loop_eq:
  "dump_loop len data = (if len \<le> length data then Inr (concat (map (\<lambda>b. hex2 b @ '' '') (take len data))) else Inl OutOfBounds)"
  by (induction len data rule: dump_loop.induct) auto

definition dump_bytes :: "u8 list \<Rightarrow> string" where
  "dump_bytes bs = concat (map (\<lambda>b. hex2 b @ '' '') bs)"

lemma reset_table_keeps:
  "trace (reset_table s) = trace s" "listen_socketFd (reset_table s) = listen_socketFd s" "buffer (reset_table s) = buffer s"
  by (simp_all add: reset_table_def reset_slot_def MAX_ACCEPT_def upt_rec)

lemma client_fd_emit [simp]:
  "client_fd (emit c s) = client_fd s" "listen_socketFd (emit c s) = listen_socketFd s" "maxfd (emit c s) = maxfd s"
  "client_addr (emit c s) = client_addr s" "buffer (emit c s) = buffer s" "trace (emit c s) = trace s @ [c]"
  by (simp_all add: emit_def)

text \<open>The descriptors a trace closes.\<close>

definition closes :: "syscall list \<Rightarrow> int set" where
  "closes tr = {fd. Close fd \<in> set tr}"

text \<open>
  A table whose used slots hold distinct descriptors: clearing the value of a slot clears that slot,
  and only it.
\<close>

definition distinct_fds :: "int list \<Rightarrow> bool" where
  "distinct_fds t \<longleftrightarrow> (\<forall>i < length t. \<forall>j < i. t ! i \<noteq> -1 \<longrightarrow> t ! j \<noteq> t ! i)"

lemma distinct_fds_Cons: "distinct_fds (x # t) \<longleftrightarrow> (x \<in> set t \<longrightarrow> x = -1) \<and> distinct_fds t"
  by (auto simp: distinct_fds_def nth_Cons All_less_Suc2 in_set_conv_nth split: nat.splits)

lemma slot_clear_at:
  assumes "distinct_fds t" "m < length t"
  shows "slot_clear (t ! m) t = t[m := -1]"
proof (cases "t ! m = -1")
  case True
  then have "t[m := -1] = t" by (metis list_update_id)
  with True show ?thesis
    by (cases rule: replace_first_cases [of "-1" t "-1"]) (auto simp: slot_clear_def list_update_same_conv)
next
  case False
  with assms show ?thesis by (auto simp: slot_clear_def distinct_fds_def intro!: replace_first_at)
qed

lemma distinct_fds_clear: "distinct_fds t \<Longrightarrow> distinct_fds (t[m := -1])"
  by (cases "m < length t") (auto simp: distinct_fds_def nth_list_update split: if_splits)

lemma distinct_fds_alloc:
  assumes "distinct_fds t" and "fd \<notin> set t \<or> fd = -1"
  shows "distinct_fds (slot_alloc fd t)"
proof (cases rule: replace_first_cases [of "-1" t fd])
  case absent
  with assms show ?thesis by (simp add: slot_alloc_def)
next
  case (found i)
  show ?thesis
    using assms found by (fastforce simp: slot_alloc_def distinct_fds_def nth_list_update)
qed

lemma receive_client_effect:
  assumes "distinct_fds (client_fd s)" "m < length (client_fd s)" "r \<le> int BUFFER_SIZE"
  shows "\<exists>s'. receive_client r d m s = Inr s' \<and>
    client_fd s' = (if r < 0 then (client_fd s)[m := -1] else client_fd s) \<and>
    listen_socketFd s' = listen_socketFd s \<and> client_addr s' = client_addr s \<and> length (buffer s') = BUFFER_SIZE \<and>
    closes (trace s') \<subseteq> Set.insert (-1) (closes (trace s))"
  using assms slot_clear_at [OF assms(1,2)]
  by (auto simp: receive_client_def handleReceiveData_def dump_loop_eq closes_def Let_def nat_le_iff)

lemma accept_client_effect:
  "client_fd (accept_client new peer m s) = (if new \<noteq> 0 then slot_alloc new (client_fd s) else client_fd s)"
  "listen_socketFd (accept_client new peer m s) = listen_socketFd s"
  "length (client_addr (accept_client new peer m s)) = length (client_addr s)"
  "buffer (accept_client new peer m s) = buffer s"
  "closes (trace (accept_client new peer m s)) = closes (trace s)"
  by (auto simp: accept_client_def closes_def Let_def)

text \<open>Reading a dump back.\<close>

definition hex_value :: "char \<Rightarrow> nat" where
  "hex_value c = (let n = of_char c in if n < 58 then n - 48 else n - 87)"

fun undump :: "string \<Rightarrow> u8 list" where
  "undump (c # d # e # rest) = (if c = CHR '']'' then [] else of_nat (16 * hex_value c + hex_value d) # undump rest)"
| "undump _ = []"

lemma hex_value_digit: "n < 16 \<Longrightarrow> hex_value (hex_digit n) = n"
  by (simp add: hex_value_def hex_digit_def Let_def)

lemma hex_digit_not_bracket: "n < 16 \<Longrightarrow> hex_digit n \<noteq> CHR '']''"
proof
  assume "n < 16" "hex_digit n = CHR '']''"
  then have "of_char (hex_digit n) = (93::nat)" by simp
  with \<open>n < 16\<close> show False by (simp add: hex_digit_def split: if_splits)
qed

lemma undump_dump: "undump (concat (map (\<lambda>b. hex2 b @ '' '') bs) @ CHR '']'' # a # b # cs) = bs"
proof -
  have "unat b div 16 < 16" for b :: u8
    using unsigned_less [of b, where 'a = nat] by (simp add: less_mult_imp_div_less)
  then show ?thesis by (induction bs) (simp_all add: hex2_def hex_value_digit hex_digit_not_bracket)
qed

text \<open>
  C27. The dump of received data loses nothing: for any length within the buffer exactly one line is
  printed and the bytes received can be read back from it; a length past the buffer is an
  out-of-bounds read.
\<close>

theorem handleReceiveData_roundtrip:
  "handleReceiveData data len s = (if len \<le> length data
     then Inr (s\<lparr>trace := trace s @ [Print (''['' @ concat (map (\<lambda>b. hex2 b @ '' '') (take len data)) @ '']'' @ [CHR 0x0D, CHR 0x0A])]\<rparr>)
     else Inl OutOfBounds) \<and>
   undump (tl (''['' @ concat (map (\<lambda>b. hex2 b @ '' '') (take len data)) @ '']'' @ [CHR 0x0D, CHR 0x0A])) = take len data"
  using undump_dump [of "take len data"] by (simp add: handleReceiveData_def dump_loop_eq emit_def)

end
