(* ===== verification/Client_Table.thy ===== *)
theory Client_Table
  imports Socket_Base
begin

text \<open>
  The table of clients that the \<^verbatim>\<open>select\<close> and the \<^verbatim>\<open>poll\<close> server share, as a table: six descriptors of which -1 is
  free. What serving one slot does to it, stated without the code's loops over the table, and the
  invariant under which the code does that.
\<close>

section \<open>Steps of a table\<close>

definition first_free :: "int list \<Rightarrow> nat" where
  "first_free t = length (takeWhile (\<lambda>fd. fd \<noteq> -1) t)"

text \<open>A new connection takes the first free slot, if there is one; descriptor 0 is taken for none.\<close>

definition take_conn :: "int \<Rightarrow> int list \<Rightarrow> int list" where
  "take_conn new t = (if new = 0 then t else t[first_free t := new])"

text \<open>Serving slot \<open>m\<close>: nothing, a connection to accept, or a read that frees the slot when it fails.\<close>

definition slot_step :: "bool \<Rightarrow> bool \<Rightarrow> int \<Rightarrow> int \<Rightarrow> nat \<Rightarrow> int list \<Rightarrow> int list" where
  "slot_step hit listening new r m t =
     (if \<not> hit then t else if listening then take_conn new t else if r < 0 then t[m := -1] else t)"

text \<open>What a run comes to, as far as the table goes.\<close>

definition table_view :: "server halt + server \<Rightarrow> unit halt + int list" where
  "table_view r = map_sum (map_halt (\<lambda>_. ())) client_fd r"

lemma table_view_simps [simp]:
  "table_view (Inr s) = Inr (client_fd s)" "table_view (Inl (Fault f)) = Inl (Fault f)"
  "table_view (Inl (Exit c s)) = Inl (Exit c ())" "table_view (Inl (Return c s)) = Inl (Return c ())"
  by (simp_all add: table_view_def)

lemma table_view_Inr: "table_view r = Inr t \<longleftrightarrow> (\<exists>s. r = Inr s \<and> client_fd s = t)"
  by (cases r) (auto simp: table_view_def)

lemma first_free_nth: "first_free t < length t \<Longrightarrow> t ! first_free t = -1"
  unfolding first_free_def using nth_length_takeWhile [of "\<lambda>fd. fd \<noteq> -1" t] by auto

lemma slot_alloc_first_free: "slot_alloc new t = t[first_free t := new]"
  by (induction t) (auto simp: slot_alloc_def first_free_def)

section \<open>Well-formed tables\<close>

text \<open>
  Slot 0 is free or has the listener, which no other slot has; the other slots are free or have
  descriptors, none of them twice.
\<close>

definition table_ok :: "int \<Rightarrow> int list \<Rightarrow> bool" where
  "table_ok l t \<longleftrightarrow> length t = 6 \<and> 0 < l \<and> (t ! 0 = -1 \<or> t ! 0 = l) \<and> (\<forall>i \<in> {1..<6}. t ! i \<noteq> l \<and> -1 \<le> t ! i) \<and> distinct_fds t"

text \<open>\<^verbatim>\<open>accept\<close> fails with -1 or returns a descriptor that is not open, so not one of the table; 0 is possible only if it is closed.\<close>

definition fresh :: "int \<Rightarrow> int \<Rightarrow> int list \<Rightarrow> bool" where
  "fresh l new t \<longleftrightarrow> -1 \<le> new \<and> (0 < new \<longrightarrow> new \<noteq> l \<and> new \<notin> set t)"

lemma distinct_fdsD: "distinct_fds t \<Longrightarrow> i < length t \<Longrightarrow> j < i \<Longrightarrow> t ! i \<noteq> -1 \<Longrightarrow> t ! j \<noteq> t ! i"
  by (simp add: distinct_fds_def)

lemma table_ok_listener:
  assumes "table_ok l t"
  shows "table_ok l (t[0 := l])" "t[0 := l] ! 0 = l"
proof -
  obtain x ts where t: "t = x # ts" using assms by (cases t) (auto simp: table_ok_def)
  have "l \<notin> set ts"
  proof
    assume "l \<in> set ts"
    then obtain i where "i < length ts" "ts ! i = l" by (auto simp: in_set_conv_nth)
    then have "Suc i \<in> {1..<6}" "t ! Suc i = l" using assms t by (auto simp: table_ok_def)
    with assms show False unfolding table_ok_def by blast
  qed
  with assms t show "table_ok l (t[0 := l])" "t[0 := l] ! 0 = l" by (auto simp: table_ok_def distinct_fds_Cons)
qed

lemma table_ok_clear: "table_ok l t \<Longrightarrow> m \<in> {1..<6} \<Longrightarrow> table_ok l (t[m := -1])"
  using distinct_fds_clear [of t m] by (auto simp: table_ok_def nth_list_update)

lemma take_conn_ok:
  assumes "table_ok l t" "t ! 0 = l" "fresh l new t"
  shows "table_ok l (take_conn new t)" "take_conn new t ! 0 = l"
proof -
  have "first_free t \<noteq> 0 \<or> length t \<le> first_free t"
  proof -
    have "t \<noteq> []" "l \<noteq> -1" using assms(1) by (auto simp: table_ok_def)
    with first_free_nth [of t] assms(2) show ?thesis by (cases "first_free t") auto
  qed
  moreover have "distinct_fds (take_conn new t)"
    using assms distinct_fds_alloc [of t new] by (auto simp: take_conn_def slot_alloc_first_free table_ok_def fresh_def)
  ultimately show "table_ok l (take_conn new t)" "take_conn new t ! 0 = l"
    using assms by (cases "first_free t < length t"; auto simp: take_conn_def table_ok_def fresh_def nth_list_update)+
qed

lemma set_take_conn: "set (take_conn new t) \<subseteq> Set.insert new (set t)"
  using set_update_subset_insert [of t _ new] by (auto simp: take_conn_def)

lemma take_conn_nth: "i < length t \<Longrightarrow> take_conn new t ! i = (if new \<noteq> 0 \<and> i = first_free t then new else t ! i)"
  by (simp add: take_conn_def nth_list_update)

lemma slot_step_ok:
  assumes "table_ok l t" "t ! 0 = l" "listening \<Longrightarrow> fresh l new t" "\<not> listening \<Longrightarrow> m \<in> {1..<6}"
  shows "table_ok l (slot_step hit listening new r m t)" "slot_step hit listening new r m t ! 0 = l"
  using assms take_conn_ok [OF assms(1,2)] table_ok_clear [OF assms(1)] by (auto simp: slot_step_def)

lemma set_slot_step: "set (slot_step hit listening new r m t) \<subseteq> Set.insert (-1) (Set.insert new (set t))"
  using set_take_conn [of new t] set_update_subset_insert [of t m "-1"] by (auto simp: slot_step_def)

section \<open>The code serves a slot\<close>

definition serving :: "int \<Rightarrow> server \<Rightarrow> bool" where
  "serving l s \<longleftrightarrow> listen_socketFd s = l \<and> table_ok l (client_fd s) \<and> client_fd s ! 0 = l
     \<and> length (client_addr s) = 6 \<and> length (buffer s) = BUFFER_SIZE"

lemma servingD:
  assumes "serving l s"
  shows "listen_socketFd s = l" "table_ok l (client_fd s)" "client_fd s ! 0 = l" "length (client_fd s) = 6" "distinct_fds (client_fd s)"
    "i \<in> {1..<6} \<Longrightarrow> client_fd s ! i \<noteq> l"
  using assms by (auto simp: serving_def table_ok_def)

lemma serving_slot:
  assumes serv: "serving l s" and acc: "listening \<Longrightarrow> fresh l new (client_fd s)"
    and rec: "\<not> listening \<Longrightarrow> m \<in> {1..<6} \<and> r \<le> int BUFFER_SIZE"
  shows "\<exists>s'. (if hit then if listening then Inr (accept_client new peer m s) else receive_client r d m s else Inr s) = Inr s'
    \<and> serving l s' \<and> client_fd s' = slot_step hit listening new r m (client_fd s)
    \<and> closes (trace s') \<subseteq> Set.insert (-1) (closes (trace s))"
proof -
  note ok = slot_step_ok [OF servingD(2,3) [OF serv] acc, of listening m hit r]
  consider "\<not> hit" | "hit" "listening" | "hit" "\<not> listening" by blast
  then show ?thesis
  proof cases
    case 1
    with serv show ?thesis by (auto simp: slot_step_def)
  next
    case 2
    then have "client_fd (accept_client new peer m s) = slot_step hit listening new r m (client_fd s)"
      by (simp add: accept_client_effect slot_step_def take_conn_def slot_alloc_first_free)
    with 2 serv ok rec show ?thesis by (auto simp: serving_def accept_client_effect)
  next
    case 3
    with receive_client_effect [OF servingD(5) [OF serv], of m r d] rec servingD(4) [OF serv] obtain s' where
      "receive_client r d m s = Inr s'" "client_fd s' = (if r < 0 then (client_fd s)[m := -1] else client_fd s)"
      "listen_socketFd s' = listen_socketFd s" "client_addr s' = client_addr s" "length (buffer s') = BUFFER_SIZE"
      "closes (trace s') \<subseteq> Set.insert (-1) (closes (trace s))" by auto
    with 3 serv ok rec show ?thesis by (auto simp: serving_def slot_step_def)
  qed
qed

text \<open>Writing the listener into slot 0, which both loops begin with.\<close>

definition table_inv :: "server \<Rightarrow> bool" where
  "table_inv s \<longleftrightarrow> table_ok (listen_socketFd s) (client_fd s) \<and> length (client_addr s) = 6 \<and> length (buffer s) = BUFFER_SIZE"

lemma serving_inv: "serving l s \<Longrightarrow> table_inv s"
  by (auto simp: serving_def table_inv_def)

lemma with_listener:
  assumes "table_inv s"
  shows "serving (listen_socketFd s) (s\<lparr>client_fd := (client_fd s)[0 := listen_socketFd s], maxfd := k\<rparr>)"
    and "serving (listen_socketFd s) (s\<lparr>client_fd := (client_fd s)[0 := listen_socketFd s]\<rparr>)"
  using assms table_ok_listener [of "listen_socketFd s" "client_fd s"] by (auto simp: serving_def table_inv_def)

lemma serving_emit [simp]: "serving l (emit c s) = serving l s"
  by (simp add: serving_def)

section \<open>Start-up\<close>

definition start_table :: "int list" where
  "start_table = [-1, -1, -1, -1, -1, 0]"

lemma reset_table_slots:
  "client_fd (reset_table static_server) = start_table"
  "client_addr (reset_table static_server) = replicate 6 zero_addr"
  by (simp_all add: start_table_def reset_table_def reset_slot_def static_server_def MAX_ACCEPT_def upt_rec numeral_eq_Suc)

lemma reset_table_fields:
  "client_fd (reset_table (s\<lparr>listen_socketFd := l, trace := tr\<rparr>)) = client_fd (reset_table s)"
  "client_addr (reset_table (s\<lparr>listen_socketFd := l, trace := tr\<rparr>)) = client_addr (reset_table s)"
  "listen_socketFd (reset_table s) = listen_socketFd s" "buffer (reset_table s) = buffer s" "trace (reset_table s) = trace s"
  by (simp_all add: reset_table_def reset_slot_def MAX_ACCEPT_def upt_rec)

lemma start_table_ok: "0 < l \<Longrightarrow> table_ok l start_table"
proof -
  have "distinct_fds start_table" by (simp add: start_table_def distinct_fds_Cons) (simp add: distinct_fds_def)
  then show "0 < l \<Longrightarrow> table_ok l start_table" by (simp add: table_ok_def start_table_def atLeastLessThan_nat_numeral)
qed

lemma started_inv:
  assumes "0 < l"
  shows "table_inv (reset_table (static_server\<lparr>listen_socketFd := l, trace := tr\<rparr>))"
    "client_fd (reset_table (static_server\<lparr>listen_socketFd := l, trace := tr\<rparr>)) = start_table"
  using start_table_ok [OF assms] by (simp_all add: table_inv_def reset_table_fields reset_table_slots) (simp add: static_server_def)

end
