(* ===== verification/Select_Server.thy ===== *)
theory Select_Server
  imports Client_Table
begin

text \<open>
  \<^verbatim>\<open>socketSever_Init_select\<close> of \<^verbatim>\<open>linux_socket_example/server.c\<close>: the set-up and one pass of its
  endless loop. A pass takes what the operating system answers as a record: the return value of
  \<^verbatim>\<open>select\<close>, the descriptors it found ready, and for slot \<open>m\<close> what \<^verbatim>\<open>accept\<close> or \<^verbatim>\<open>read\<close> returns when that
  slot is served.

  \<^verbatim>\<open>FD_ISSET\<close> outside 0 to 1023 is undefined, and the code applies it to the -1 of every free slot. What
  becomes of that is the field \<open>stray\<close>, a choice per slot: nothing is assumed of it, so the theorems
  hold for a platform on which it stops the program and for one on which it gives either answer.
\<close>

section \<open>Set-up\<close>

definition serv_addr :: "u16 \<Rightarrow> sockaddr_in" where
  "serv_addr port = \<lparr>sin_family = AF_INET, sin_port = htons port, s_addr = 0\<rparr>"

definition select_init :: "int \<Rightarrow> int \<Rightarrow> server \<Rightarrow> server halt + server" where
  "select_init socket_ret bind_ret s =
     (let s = emit (Socket socket_ret) (s\<lparr>listen_socketFd := socket_ret\<rparr>) in
      if listen_socketFd s < 0 then Inl (Return (-1) s)
      else let s = emit (Bind (listen_socketFd s) (serv_addr 778)) s in
      if bind_ret < 0 then Inl (Exit 1 s)
      else let s = emit (Listen (listen_socketFd s) 5) s;
               s = emit (FcntlNonblock (listen_socketFd s)) s;
               s = emit (SetReuseAddr (listen_socketFd s)) s
           in Inr (reset_table s))"

section \<open>One pass\<close>

record select_env =
  select_rc :: int
  ready :: "int list"
  stray :: "nat \<Rightarrow> bool option"
  accept_ret :: "nat \<Rightarrow> int"
  accept_addr :: "nat \<Rightarrow> sockaddr_in"
  read_ret :: "nat \<Rightarrow> int"
  read_data :: "nat \<Rightarrow> u8 list"

text \<open>\<^verbatim>\<open>select\<close> takes descriptors out of the set and puts none in.\<close>

definition select_call :: "select_env \<Rightarrow> int list \<Rightarrow> int list" where
  "select_call env fdr = filter (\<lambda>fd. fd \<in> set (ready env)) fdr"

definition FD_ISSET :: "select_env \<Rightarrow> nat \<Rightarrow> int \<Rightarrow> int list \<Rightarrow> bool result" where
  "FD_ISSET env m fd fdr =
     (if 0 \<le> fd \<and> fd < FD_SETSIZE then Inr (fd \<in> set fdr)
      else case stray env m of None \<Rightarrow> Inl OutOfBounds | Some b \<Rightarrow> Inr b)"

fun collect_slot :: "nat \<Rightarrow> int list \<times> server \<Rightarrow> (int list \<times> server) result" where
  "collect_slot i (fdr, s) =
     (if client_fd s ! i \<noteq> -1 then
        bindE (FD_SET (client_fd s ! i) fdr) (\<lambda>fdr.
          Inr (fdr, if client_fd s ! i > maxfd s then s\<lparr>maxfd := client_fd s ! i\<rparr> else s))
      else Inr (fdr, s))"

definition select_serve :: "select_env \<Rightarrow> int list \<Rightarrow> nat \<Rightarrow> server \<Rightarrow> server result" where
  "select_serve env fdr m s =
     bindE (FD_ISSET env m (client_fd s ! m) fdr) (\<lambda>isset.
     if isset then
       if client_fd s ! m = listen_socketFd s then Inr (accept_client (accept_ret env m) (accept_addr env m) m s)
       else receive_client (read_ret env m) (read_data env m) m s
     else Inr s)"

definition select_pass :: "select_env \<Rightarrow> server \<Rightarrow> server halt + server" where
  "select_pass env s =
     (let s = s\<lparr>client_fd := (client_fd s)[0 := listen_socketFd s]\<rparr> in
      bindE (lift_fault (foldE collect_slot [0..<MAX_ACCEPT] ([], s))) (\<lambda>(fdr, s).
      let s = emit (Select (maxfd s + 1) fdr) s; fdr = select_call env fdr in
      if select_rc env < 0 then Inl (Exit 1 (emit (Close (listen_socketFd s)) s))
      else lift_fault (foldE (select_serve env fdr) [0..<MAX_ACCEPT + 1] s)))"

definition socketSever_Init_select :: "int \<Rightarrow> int \<Rightarrow> select_env list \<Rightarrow> server halt + server" where
  \<comment> \<open>the set-up, then as many passes as there are answers\<close>
  "socketSever_Init_select socket_ret bind_ret envs =
     bindE (select_init socket_ret bind_ret static_server) (foldE select_pass envs)"

section \<open>What a pass is to do\<close>

text \<open>
  The table that the code keeps: well formed, with the 0 of static storage still in the last slot, which
  the initialisation loop leaves out.
\<close>

definition select_inv :: "server \<Rightarrow> bool" where
  "select_inv s \<longleftrightarrow> table_inv s \<and> client_fd s ! 5 = 0"

text \<open>
  Documented answers: \<^verbatim>\<open>accept\<close> fails or returns a descriptor that is not open, \<^verbatim>\<open>read\<close> returns at most what
  was asked for.
\<close>

definition select_answers :: "select_env \<Rightarrow> int \<Rightarrow> int list \<Rightarrow> bool" where
  "select_answers env l t \<longleftrightarrow> fresh l (accept_ret env 0) t \<and> (\<forall>m. read_ret env m \<le> int BUFFER_SIZE)"

text \<open>
  Whether slot \<open>m\<close> with descriptor \<open>fd\<close> is served, in a pass that began with table \<open>t\<close>: the last slot is not
  among those asked about. And whether looking stops the program.
\<close>

definition hit :: "select_env \<Rightarrow> int list \<Rightarrow> nat \<Rightarrow> int \<Rightarrow> bool" where
  "hit env t m fd \<longleftrightarrow> (if 0 \<le> fd \<and> fd < FD_SETSIZE then fd \<in> set (take 5 t) \<and> fd \<in> set (ready env) else stray env m = Some True)"

definition traps :: "select_env \<Rightarrow> nat \<Rightarrow> int \<Rightarrow> bool" where
  "traps env m fd \<longleftrightarrow> \<not> (0 \<le> fd \<and> fd < FD_SETSIZE) \<and> stray env m = None"

definition select_step :: "select_env \<Rightarrow> int \<Rightarrow> int list \<Rightarrow> unit halt + int list" where
  "select_step env l t =
     (let t = t[0 := l]; t' = (if l \<in> set (ready env) then take_conn (accept_ret env 0) t else t) in
      if \<exists>i \<in> {0..<5}. t ! i \<ge> FD_SETSIZE then Inl (Fault OutOfBounds)
      else if select_rc env < 0 then Inl (Exit 1 ())
      else if \<exists>i \<in> {1..<6}. traps env i (t' ! i) then Inl (Fault OutOfBounds)
      else Inr (map (\<lambda>i. if 0 < i \<and> hit env t i (t' ! i) \<and> read_ret env i < 0 then -1 else t' ! i) [0..<6]))"

section \<open>Registering the descriptors\<close>

lemma collect_loop:
  assumes "\<forall>i < n. -1 \<le> client_fd s ! i"
  shows "if \<exists>i < n. client_fd s ! i \<ge> FD_SETSIZE then foldE collect_slot [0..<n] ([], s) = Inl OutOfBounds
    else \<exists>fdr k. foldE collect_slot [0..<n] ([], s) = Inr (fdr, s\<lparr>maxfd := k\<rparr>) \<and> set fdr = (!) (client_fd s) ` {0..<n} - {-1}"
  using assms
proof (induction n)
  case 0
  have "s = s\<lparr>maxfd := maxfd s\<rparr>" by simp
  then show ?case by (auto intro!: exI [of _ "maxfd s"])
next
  case (Suc n)
  let ?fd = "client_fd s ! n"
  show ?case
  proof (cases "\<exists>i < n. client_fd s ! i \<ge> FD_SETSIZE")
    case True
    with Suc have "foldE collect_slot [0..<n] ([], s) = Inl OutOfBounds" by auto
    with True show ?thesis by (auto simp: foldE_append less_Suc_eq)
  next
    case False
    with Suc obtain fdr k where IH: "foldE collect_slot [0..<n] ([], s) = Inr (fdr, s\<lparr>maxfd := k\<rparr>)"
      "set fdr = (!) (client_fd s) ` {0..<n} - {-1}" by auto
    have range: "(!) (client_fd s) ` {0..<Suc n} = Set.insert ?fd ((!) (client_fd s) ` {0..<n})"
      by (simp add: atLeast0_lessThan_Suc)
    consider "?fd = -1" | "0 \<le> ?fd" "?fd < FD_SETSIZE" | "?fd \<ge> FD_SETSIZE" using Suc.prems by force
    then show ?thesis
    proof cases
      case 1
      with IH False show ?thesis by (auto simp: foldE_append less_Suc_eq FD_SETSIZE_def range intro!: exI [of _ fdr] exI [of _ k])
    next
      case 2
      then have "foldE collect_slot [0..<Suc n] ([], s) = Inr (List.insert ?fd fdr, s\<lparr>maxfd := if ?fd > k then ?fd else k\<rparr>)"
        using IH(1) by (simp add: foldE_append FD_SET_def)
      moreover have "set (List.insert ?fd fdr) = (!) (client_fd s) ` {0..<Suc n} - {-1}" using IH(2) 2 by (auto simp: range)
      ultimately show ?thesis using 2 False by (auto simp: less_Suc_eq)
    next
      case 3
      with IH(1) show ?thesis by (auto simp: foldE_append FD_SET_def FD_SETSIZE_def)
    qed
  qed
qed

lemma select_collect:
  assumes "serving l s"
  shows "if \<exists>i \<in> {0..<5}. client_fd s ! i \<ge> FD_SETSIZE then foldE collect_slot [0..<MAX_ACCEPT] ([], s) = Inl OutOfBounds
    else \<exists>fdr k. foldE collect_slot [0..<MAX_ACCEPT] ([], s) = Inr (fdr, s\<lparr>maxfd := k\<rparr>) \<and> set fdr = set (take 5 (client_fd s)) - {-1}"
proof -
  have "\<forall>i < 5. -1 \<le> client_fd s ! i"
  proof (intro allI impI)
    fix i :: nat
    assume "i < 5"
    with assms show "-1 \<le> client_fd s ! i" by (cases "i = 0") (auto simp: serving_def table_ok_def)
  qed
  moreover have "(!) (client_fd s) ` {0..<5} = set (take 5 (client_fd s))"
    using servingD(4) [OF assms] by (simp add: nth_image)
  ultimately show ?thesis using collect_loop [of 5 s] by (auto simp: MAX_ACCEPT_def split: if_splits)
qed

section \<open>Serving the slots\<close>

text \<open>What \<^verbatim>\<open>FD_ISSET\<close> answers, in terms of the table that the pass began with.\<close>

lemma FD_ISSET_hit:
  assumes "set fdr = set (take 5 t) - {-1}"
  shows "FD_ISSET env m fd (select_call env fdr) = (if traps env m fd then Inl OutOfBounds else Inr (hit env t m fd))"
  using assms by (auto simp: FD_ISSET_def select_call_def traps_def hit_def split: option.split)

lemma select_serve_loop:
  assumes serv: "serving l s" and fdr: "set fdr = set (take 5 t) - {-1}" and rd: "\<forall>m. read_ret env m \<le> int BUFFER_SIZE" and n: "n \<le> 6"
  shows "if \<exists>i \<in> {1..<n}. traps env i (client_fd s ! i) then foldE (select_serve env (select_call env fdr)) [1..<n] s = Inl OutOfBounds
    else \<exists>s'. foldE (select_serve env (select_call env fdr)) [1..<n] s = Inr s' \<and> serving l s'
      \<and> (\<forall>i < 6. client_fd s' ! i =
          (if 1 \<le> i \<and> i < n \<and> hit env t i (client_fd s ! i) \<and> read_ret env i < 0 then -1 else client_fd s ! i))
      \<and> closes (trace s') \<subseteq> Set.insert (-1) (closes (trace s))"
  using n
proof (induction n)
  case 0
  with serv show ?case by auto
next
  case (Suc n)
  let ?f = "select_serve env (select_call env fdr)"
  show ?case
  proof (cases "n = 0")
    case True
    with serv show ?thesis by auto
  next
    case False
    then have n: "n \<in> {1..<6}" and upt: "[1..<Suc n] = [1..<n] @ [n]" and set: "{1..<Suc n} = Set.insert n {1..<n}"
      using Suc.prems by auto
    show ?thesis
    proof (cases "\<exists>i \<in> {1..<n}. traps env i (client_fd s ! i)")
      case True
      with Suc have "foldE ?f [1..<n] s = Inl OutOfBounds" by simp
      with True show ?thesis unfolding upt set foldE_append by auto
    next
      case no: False
      from Suc.IH [OF Suc_leD [OF Suc.prems], unfolded if_not_P [OF no]]
      obtain s1 where s1: "foldE ?f [1..<n] s = Inr s1" "serving l s1"
        "\<forall>i < 6. client_fd s1 ! i = (if 1 \<le> i \<and> i < n \<and> hit env t i (client_fd s ! i) \<and> read_ret env i < 0 then -1 else client_fd s ! i)"
        "closes (trace s1) \<subseteq> Set.insert (-1) (closes (trace s))" by blast
      have at: "client_fd s1 ! n = client_fd s ! n" using s1(3) n by simp
      have body: "foldE ?f [1..<Suc n] s = bindE (FD_ISSET env n (client_fd s ! n) (select_call env fdr)) (\<lambda>isset.
          if isset then receive_client (read_ret env n) (read_data env n) n s1 else Inr s1)"
        using s1(1) servingD(1,6) [OF s1(2)] n unfolding upt foldE_append by (simp add: select_serve_def at) (simp add: at [symmetric])
      show ?thesis
      proof (cases "traps env n (client_fd s ! n)")
        case True
        then show ?thesis unfolding body set by (simp add: FD_ISSET_hit [OF fdr])
      next
        case False
        obtain s2 where s2: "(if hit env t n (client_fd s ! n) then receive_client (read_ret env n) (read_data env n) n s1 else Inr s1) = Inr s2"
            "serving l s2" "client_fd s2 = slot_step (hit env t n (client_fd s ! n)) False 0 (read_ret env n) n (client_fd s1)"
            "closes (trace s2) \<subseteq> Set.insert (-1) (closes (trace s1))"
          using serving_slot [OF s1(2), of False 0 n "read_ret env n" "hit env t n (client_fd s ! n)" zero_addr "read_data env n", unfolded if_False]
            rd n by blast
        have "client_fd s2 ! i = (if 1 \<le> i \<and> i < Suc n \<and> hit env t i (client_fd s ! i) \<and> read_ret env i < 0 then -1 else client_fd s ! i)"
          if "i < 6" for i
          using s2(3) s1(3) servingD(4) [OF s1(2)] that n by (auto simp: slot_step_def nth_list_update less_Suc_eq)
        moreover have "foldE ?f [1..<Suc n] s = Inr s2" unfolding body using False s2(1) by (simp add: FD_ISSET_hit [OF fdr])
        ultimately show ?thesis using s2(2,4) s1(4) no False unfolding set by auto
      qed
    qed
  qed
qed

lemma upt_6: "[0..<MAX_ACCEPT + 1] = 0 # [1..<6]"
  by (simp add: MAX_ACCEPT_def upt_rec)

lemma select_serve_listener:
  assumes serv: "serving l s" and fdr: "set fdr = set (take 5 (client_fd s)) - {-1}" and l: "l < FD_SETSIZE"
    and ans: "select_answers env l (client_fd s)"
  shows "\<exists>s'. select_serve env (select_call env fdr) 0 s = Inr s' \<and> serving l s'
    \<and> client_fd s' = (if l \<in> set (ready env) then take_conn (accept_ret env 0) (client_fd s) else client_fd s)
    \<and> closes (trace s') \<subseteq> Set.insert (-1) (closes (trace s))"
proof -
  let ?h = "l \<in> set (ready env)"
  have "0 < l" "l \<in> set (take 5 (client_fd s))"
    using servingD(2,3,4) [OF serv] by (auto simp: table_ok_def in_set_conv_nth intro!: exI [of _ 0])
  then have "hit env (client_fd s) 0 l = ?h" "\<not> traps env 0 l" using l by (auto simp: hit_def traps_def)
  then have "select_serve env (select_call env fdr) 0 s =
      (if ?h then if True then Inr (accept_client (accept_ret env 0) (accept_addr env 0) 0 s) else receive_client 0 [] 0 s else Inr s)"
    using FD_ISSET_hit [OF fdr, of env 0 l] servingD(1,3) [OF serv] by (simp add: select_serve_def)
  with serving_slot [OF serv, of True "accept_ret env 0" 0 0 ?h "accept_addr env 0" "[]"] ans show ?thesis
    by (auto simp: select_answers_def slot_step_def)
qed

lemma select_pass_effect:
  assumes inv: "select_inv s" and ans: "select_answers env (listen_socketFd s) (client_fd s)"
  shows "table_view (select_pass env s) = select_step env (listen_socketFd s) (client_fd s)"
    and "select_pass env s = Inr s' \<Longrightarrow> select_inv s' \<and> listen_socketFd s' = listen_socketFd s \<and>
      closes (trace s') \<subseteq> Set.insert (-1) (closes (trace s))"
proof -
  let ?l = "listen_socketFd s" and ?t = "(client_fd s)[0 := listen_socketFd s]"
  let ?s = "s\<lparr>client_fd := ?t\<rparr>" and ?t' = "if listen_socketFd s \<in> set (ready env) then take_conn (accept_ret env 0) ?t else ?t"
  have tab: "table_inv s" using inv by (simp add: select_inv_def)
  note serv = with_listener [OF tab]
  have t0: "length ?t = 6" "?t ! 0 = ?l" "?t ! 5 = 0" "0 < ?l" "distinct_fds ?t"
    using servingD(2-5) [OF serv(2)] inv by (auto simp: select_inv_def table_ok_def)
  have ans': "select_answers env ?l ?t"
    using ans set_update_subset_insert [of "client_fd s" 0 ?l] by (auto simp: select_answers_def fresh_def)
  have main: "table_view (select_pass env s) = select_step env ?l (client_fd s) \<and> (\<forall>s'. select_pass env s = Inr s' \<longrightarrow>
      select_inv s' \<and> listen_socketFd s' = ?l \<and> closes (trace s') \<subseteq> Set.insert (-1) (closes (trace s)))"
  proof (cases "\<exists>i \<in> {0..<5}. ?t ! i \<ge> FD_SETSIZE")
    case True
    with select_collect [OF serv(2)] have "foldE collect_slot [0..<MAX_ACCEPT] ([], ?s) = Inl OutOfBounds" by simp
    with True show ?thesis by (simp add: select_pass_def select_step_def)
  next
    case small: False
    with select_collect [OF serv(2)] obtain fdr k where
      coll: "foldE collect_slot [0..<MAX_ACCEPT] ([], ?s) = Inr (fdr, ?s\<lparr>maxfd := k\<rparr>)" "set fdr = set (take 5 ?t) - {-1}" by auto
    let ?s0 = "emit (Select (k + 1) fdr) (?s\<lparr>maxfd := k\<rparr>)" and ?fdr = "select_call env fdr"
    have l: "?l < FD_SETSIZE" using small t0(2) by force
    have s0: "serving ?l ?s0" "client_fd ?s0 = ?t" using serv(1) by simp_all
    from select_serve_listener [OF s0(1), unfolded s0(2), OF coll(2) l ans'] obtain s1 where
      s1: "select_serve env ?fdr 0 ?s0 = Inr s1" "serving ?l s1" "client_fd s1 = ?t'" "closes (trace s1) \<subseteq> Set.insert (-1) (closes (trace ?s0))"
      by blast
    have pass: "select_pass env s = (if select_rc env < 0 then Inl (Exit 1 (emit (Close ?l) ?s0)) else lift_fault (foldE (select_serve env ?fdr) [1..<6] s1))"
      using coll(1) s1(1) unfolding select_pass_def upt_6 by (simp add: Let_def)
    have rd: "\<forall>m. read_ret env m \<le> int BUFFER_SIZE" using ans by (simp add: select_answers_def)
    note loop = select_serve_loop [OF s1(2) coll(2) rd order_refl, unfolded s1(3)]
    have cl: "closes (trace ?s0) = closes (trace s)" by (auto simp: closes_def)
    show ?thesis
    proof (cases "select_rc env < 0 \<or> (\<exists>i \<in> {1..<6}. traps env i (?t' ! i))")
      case True
      with pass small loop show ?thesis by (cases "select_rc env < 0") (auto simp: select_step_def Let_def)
    next
      case False
      with loop obtain s2 where s2: "foldE (select_serve env ?fdr) [1..<6] s1 = Inr s2" "serving ?l s2"
        "\<forall>i < 6. client_fd s2 ! i = (if 1 \<le> i \<and> i < 6 \<and> hit env ?t i (?t' ! i) \<and> read_ret env i < 0 then -1 else ?t' ! i)"
        "closes (trace s2) \<subseteq> Set.insert (-1) (closes (trace s1))" by auto
      have run: "select_pass env s = Inr s2" using pass False s2(1) by simp
      have tab2: "client_fd s2 = map (\<lambda>i. if 0 < i \<and> hit env ?t i (?t' ! i) \<and> read_ret env i < 0 then -1 else ?t' ! i) [0..<6]"
        using s2(3) servingD(4) [OF s2(2)] by (intro nth_equalityI) auto
      have "first_free ?t \<noteq> 5" using first_free_nth [of ?t] t0(1,3) by (intro notI) simp
      then have "?t' ! 5 = 0" using t0(1,3) by (simp add: take_conn_nth)
      moreover have "0 \<notin> set (take 5 ?t)"
      proof
        assume "0 \<in> set (take 5 ?t)"
        then obtain i where "i < 5" "?t ! i = 0" using t0(1) by (auto simp: in_set_conv_nth)
        moreover from \<open>i < 5\<close> t0(1,3,5) have "?t ! i \<noteq> ?t ! 5" by (intro distinct_fdsD) simp_all
        ultimately show False using t0(3) by simp
      qed
      then have "\<not> hit env ?t 5 0" by (simp add: hit_def FD_SETSIZE_def)
      ultimately have "client_fd s2 ! 5 = 0" using s2(3) by simp
      then have "select_inv s2" using serving_inv [OF s2(2)] by (simp add: select_inv_def)
      with run tab2 small False s1(4) s2(4) cl servingD(1) [OF s2(2)] show ?thesis
        by (auto simp: select_step_def Let_def)
    qed
  qed
  show "table_view (select_pass env s) = select_step env ?l (client_fd s)"
    "select_pass env s = Inr s' \<Longrightarrow> select_inv s' \<and> listen_socketFd s' = ?l \<and> closes (trace s') \<subseteq> Set.insert (-1) (closes (trace s))"
    using main by blast+
qed

text \<open>
  C4. A pass of the \<^verbatim>\<open>select\<close> server, in every case. A descriptor of 1024 or more in the table is out of bounds
  for the set, so the pass faults; a failed \<^verbatim>\<open>select\<close> ends the program with 1. Otherwise a connection on the
  listener takes the first free slot (and is lost when there is none), and the code looks at every
  slot, also at the free ones, where looking is undefined: if that stops the program, the pass faults;
  whatever it answers otherwise, the table comes out the same, with a slot freed exactly when it was found
  ready and its read failed. A read of zero bytes, which is how a closed peer shows, leaves the slot
  in use. \<^verbatim>\<open>accept\<close> is taken to return no descriptor that is open, \<^verbatim>\<open>read\<close> no more bytes than asked for.
\<close>

theorem select_pass_table:
  assumes "select_inv s" "select_answers env (listen_socketFd s) (client_fd s)"
  shows "table_view (select_pass env s) = select_step env (listen_socketFd s) (client_fd s) \<and>
    (\<forall>s'. select_pass env s = Inr s' \<longrightarrow> select_inv s' \<and> listen_socketFd s' = listen_socketFd s)"
  using select_pass_effect [OF assms] by blast

text \<open>
  Three passes over the same table with one client: with an \<^verbatim>\<open>FD_ISSET\<close> that stops on the free slots, with
  one that answers no and with one that answers yes.
\<close>

definition select_example :: server where
  "select_example = static_server\<lparr>listen_socketFd := 3, client_fd := [3, 4, -1, -1, -1, 0]\<rparr>"

definition select_answer :: "bool option \<Rightarrow> int list \<Rightarrow> int \<Rightarrow> int \<Rightarrow> select_env" where
  "select_answer b fds new r = \<lparr>select_rc = 1, ready = fds, stray = (\<lambda>_. b), accept_ret = (\<lambda>_. new),
     accept_addr = (\<lambda>_. zero_addr), read_ret = (\<lambda>_. r), read_data = (\<lambda>_. [])\<rparr>"

lemma select_example_ok:
  "select_inv select_example" "select_answers (select_answer b [3, 4] 5 (-1)) (listen_socketFd select_example) (client_fd select_example)"
proof -
  have "distinct_fds [3, 4, -1, -1, -1, 0]" by (simp add: distinct_fds_Cons) (simp add: distinct_fds_def)
  then show "select_inv select_example"
    by (simp add: select_inv_def table_inv_def table_ok_def select_example_def static_server_def MAX_ACCEPT_def atLeastLessThan_nat_numeral)
qed (simp add: select_answers_def fresh_def select_answer_def select_example_def static_server_def BUFFER_SIZE_def)

theorem select_pass_table_witness:
  "table_view (select_pass (select_answer None [3, 4] 5 (-1)) select_example) = Inl (Fault OutOfBounds) \<and>
   table_view (select_pass (select_answer (Some False) [3, 4] 5 (-1)) select_example) = Inr [3, -1, 5, -1, -1, 0] \<and>
   table_view (select_pass (select_answer (Some True) [3, 4] 5 (-1)) select_example) = Inr [3, -1, 5, -1, -1, 0]"
proof -
  have "select_step (select_answer None [3, 4] 5 (-1)) 3 [3, 4, -1, -1, -1, 0] = Inl (Fault OutOfBounds)"
    "select_step (select_answer (Some False) [3, 4] 5 (-1)) 3 [3, 4, -1, -1, -1, 0] = Inr [3, -1, 5, -1, -1, 0]"
    "select_step (select_answer (Some True) [3, 4] 5 (-1)) 3 [3, 4, -1, -1, -1, 0] = Inr [3, -1, 5, -1, -1, 0]"
    by code_simp+
  moreover have "client_fd select_example = [3, 4, -1, -1, -1, 0]" "listen_socketFd select_example = 3"
    by (simp_all add: select_example_def)
  ultimately show ?thesis
    using select_pass_table [OF select_example_ok, of None] select_pass_table [OF select_example_ok, of "Some False"]
      select_pass_table [OF select_example_ok, of "Some True"] by simp
qed

section \<open>The server from start-up\<close>

text \<open>States between passes of a server that started, as long as it runs.\<close>

inductive select_reach :: "server \<Rightarrow> bool" where
  start: "0 < l \<Longrightarrow> 0 \<le> b \<Longrightarrow> select_init l b static_server = Inr s \<Longrightarrow> select_reach s"
| pass: "select_reach s \<Longrightarrow> select_answers env (listen_socketFd s) (client_fd s) \<Longrightarrow> select_pass env s = Inr s' \<Longrightarrow> select_reach s'"

lemma select_init_table:
  assumes "0 < l" "0 \<le> b"
  obtains s where "select_init l b static_server = Inr s" "select_inv s" "listen_socketFd s = l" "client_fd s = start_table" "closes (trace s) = {}"
proof -
  let ?tr = "[Socket l, Bind l (serv_addr 778), Listen l 5, FcntlNonblock l, SetReuseAddr l]"
  let ?s = "reset_table (static_server\<lparr>listen_socketFd := l, trace := ?tr\<rparr>)"
  have "select_init l b static_server = Inr ?s"
    using assms by (simp add: select_init_def Let_def emit_def static_server_def)
  moreover have "select_inv ?s" "client_fd ?s = start_table"
    using started_inv [OF assms(1), of ?tr] by (simp_all add: select_inv_def start_table_def)
  moreover have "listen_socketFd ?s = l" "closes (trace ?s) = {}" by (simp_all add: reset_table_fields closes_def)
  ultimately show ?thesis by (intro that)
qed

lemma select_reach_inv: "select_reach s \<Longrightarrow> select_inv s \<and> closes (trace s) \<subseteq> {-1}"
proof (induction rule: select_reach.induct)
  case (start l b s)
  then obtain s' where "select_init l b static_server = Inr s'" "select_inv s'" "closes (trace s') = {}"
    using select_init_table by metis
  with start show ?case by simp
next
  case (pass s env s')
  then show ?case using select_pass_effect(2) [of s env s'] by blast
qed

text \<open>
  A started \<^verbatim>\<open>select\<close> server serves at most four clients at a time, one fewer than
  \<^verbatim>\<open>MAX_ACCEPT\<close>: the last slot keeps descriptor 0 and is never given to a client.
\<close>

theorem select_capacity:
  assumes "select_reach s"
  shows "select_inv s \<and> card {fd \<in> set (client_fd s). fd > 0 \<and> fd \<noteq> listen_socketFd s} \<le> 4"
proof -
  have inv: "select_inv s" using select_reach_inv [OF assms] by blast
  let ?t = "client_fd s"
  have len: "length ?t = 6" and "?t ! 5 = 0" and "?t ! 0 = -1 \<or> ?t ! 0 = listen_socketFd s"
    using inv by (auto simp: select_inv_def table_inv_def table_ok_def)
  moreover have "set ?t = (!) ?t ` {0..<6}" using len by (metis list.set_map map_nth set_upt)
  moreover have "{0..<6} = Set.insert 0 (Set.insert 5 {1..<5::nat})" by auto
  ultimately have "{fd \<in> set ?t. fd > 0 \<and> fd \<noteq> listen_socketFd s} \<subseteq> (!) ?t ` {1..<5}" by auto
  then have "card {fd \<in> set ?t. fd > 0 \<and> fd \<noteq> listen_socketFd s} \<le> card ((!) ?t ` {1..<5})"
    by (intro card_mono) auto
  also have "\<dots> \<le> 4" using card_image_le [of "{1..<5::nat}" "(!) ?t"] by simp
  finally show ?thesis using inv by simp
qed

text \<open>
  C28. A running \<^verbatim>\<open>select\<close> server never closes a client: after a failed read it clears the slot first
  and then closes what the slot holds, so that every \<^verbatim>\<open>close\<close> it ever makes while it runs is \<^verbatim>\<open>close(-1)\<close>
  and the descriptor leaks. This holds for every server that got its sockets (not descriptor 0) and whose
  passes so far came to their end, whatever the undefined look at a free slot answered.
\<close>

theorem select_never_closes:
  assumes "select_reach s" and "Close fd \<in> set (trace s)"
  shows "fd = -1"
  using select_reach_inv [OF assms(1)] assms(2) by (auto simp: closes_def)

definition select_started :: server where
  "select_started = reset_table (static_server\<lparr>listen_socketFd := 3,
     trace := [Socket 3, Bind 3 (serv_addr 778), Listen 3 5, FcntlNonblock 3, SetReuseAddr 3]\<rparr>)"

lemma select_started_reach: "select_reach select_started"
  by (rule select_reach.start [of 3 0])
    (simp_all add: select_started_def select_init_def Let_def emit_def static_server_def)

theorem select_capacity_witness:
  "card {fd \<in> set (client_fd select_started). fd > 0 \<and> fd \<noteq> listen_socketFd select_started} \<le> 4"
  using select_capacity [OF select_started_reach] by blast

text \<open>A client connects as descriptor 4; its next read fails.\<close>

lemma select_example_run:
  "case select_pass (select_answer (Some False) [3] 4 0) select_started of Inl _ \<Rightarrow> False
   | Inr s \<Rightarrow> client_fd s = [3, 4, -1, -1, -1, 0] \<and> listen_socketFd s = 3 \<and>
       (case select_pass (select_answer (Some False) [4] 5 (-1)) s of Inl _ \<Rightarrow> False
        | Inr s \<Rightarrow> drop 8 (trace s) = [Select 5 [4, 3], Read 4, Close (-1)])"
  by code_simp

theorem select_never_closes_witness:
  "\<exists>s. select_reach s \<and> Close (-1) \<in> set (trace s) \<and> Close 4 \<notin> set (trace s)"
proof -
  let ?e1 = "select_answer (Some False) [3] 4 0" and ?e2 = "select_answer (Some False) [4] 5 (-1)"
  note defs = select_answer_def select_answers_def fresh_def BUFFER_SIZE_def
  from select_example_run obtain s1 s2 where
    s1: "select_pass ?e1 select_started = Inr s1" "client_fd s1 = [3, 4, -1, -1, -1, 0]" "listen_socketFd s1 = 3"
    and s2: "select_pass ?e2 s1 = Inr s2" "drop 8 (trace s2) = [Select 5 [4, 3], Read 4, Close (-1)]"
    by (auto split: sum.splits)
  have "select_answers ?e1 (listen_socketFd select_started) (client_fd select_started)"
    by (simp add: defs select_started_def reset_table_fields reset_table_slots start_table_def)
  then have "select_reach s1" using select_reach.pass [OF select_started_reach _ s1(1)] by simp
  moreover have "select_answers ?e2 (listen_socketFd s1) (client_fd s1)" using s1(2,3) by (simp add: defs)
  ultimately have r: "select_reach s2" using select_reach.pass [OF _ _ s2(1)] by simp
  moreover have "Close (-1) \<in> set (trace s2)" using s2(2) by (metis in_set_dropD list.set_intros(1,2))
  ultimately show ?thesis using select_never_closes [OF r, of 4] by auto
qed

end
