(* ===== verification/Poll_Server.thy ===== *)
theory Poll_Server
  imports Select_Server
begin

text \<open>
  \<^verbatim>\<open>socketSever_Init_poll\<close> of \<^verbatim>\<open>linux_socket_example/server.c\<close>. The set-up is that of the \<^verbatim>\<open>select\<close>
  server, call for call. A pass allocates the array it polls, so what the allocator returned (nothing,
  or a block with arbitrary contents) is part of what the pass is answered. The entries of free slots
  are never written: they ask for whatever was in memory, and nothing is assumed of that, not even that
  it is not the listener.
\<close>

section \<open>One pass\<close>

record pollfd =
  fd :: int
  events :: u16
  revents :: u16

record poll_env =
  block :: "pollfd list option"
  poll_rc :: int
  reported :: "nat \<Rightarrow> u16"
  poll_accept_ret :: "nat \<Rightarrow> int"
  poll_accept_addr :: "nat \<Rightarrow> sockaddr_in"
  poll_read_ret :: "nat \<Rightarrow> int"
  poll_read_data :: "nat \<Rightarrow> u8 list"

definition POLL_EVENTS :: u16 where
  \<comment> \<open>\<^verbatim>\<open>POLLIN|POLLHUP|POLLNVAL|POLLERR|POLLRDHUP\<close>\<close>
  "POLL_EVENTS = 0x1 OR 0x10 OR 0x20 OR 0x8 OR 0x2000"

definition poll_init :: "int \<Rightarrow> int \<Rightarrow> server \<Rightarrow> server halt + server" where
  "poll_init socket_ret bind_ret s =
     (let s = emit (Socket socket_ret) (s\<lparr>listen_socketFd := socket_ret\<rparr>) in
      if listen_socketFd s < 0 then Inl (Return (-1) s)
      else let s = emit (Bind (listen_socketFd s) (serv_addr 778)) s in
      if bind_ret < 0 then Inl (Exit 1 s)
      else let s = emit (Listen (listen_socketFd s) 5) s;
               s = emit (FcntlNonblock (listen_socketFd s)) s;
               s = emit (SetReuseAddr (listen_socketFd s)) s
           in Inr (reset_table s))"

definition fill_slot :: "int list \<Rightarrow> nat \<Rightarrow> pollfd list \<Rightarrow> pollfd list" where
  "fill_slot t i pollFds =
     (if t ! i \<noteq> -1 then pollFds[i := (pollFds ! i)\<lparr>fd := t ! i, events := POLL_EVENTS\<rparr>] else pollFds)"

text \<open>
  The system call sets \<open>revents\<close> of every entry unless it fails, and then the entries keep what
  they held.
\<close>

definition poll_call :: "poll_env \<Rightarrow> pollfd list \<Rightarrow> pollfd list" where
  "poll_call env pollFds = (if poll_rc env < 0 then pollFds
     else map (\<lambda>i. (pollFds ! i)\<lparr>revents := reported env i\<rparr>) [0..<length pollFds])"

definition poll_serve :: "poll_env \<Rightarrow> pollfd list \<Rightarrow> nat \<Rightarrow> server \<Rightarrow> server result" where
  "poll_serve env pollFds Idx s =
     (if revents (pollFds ! Idx) \<noteq> 0 then
        if fd (pollFds ! Idx) = listen_socketFd s
        then Inr (accept_client (poll_accept_ret env Idx) (poll_accept_addr env Idx) Idx s)
        else receive_client (poll_read_ret env Idx) (poll_read_data env Idx) Idx s
      else Inr s)"

definition poll_pass :: "poll_env \<Rightarrow> server \<Rightarrow> server result" where
  "poll_pass env s =
     (case block env of
        None \<Rightarrow> Inr s
      | Some pollFds \<Rightarrow>
          let s = s\<lparr>client_fd := (client_fd s)[0 := listen_socketFd s]\<rparr>;
              pollFds = fold (fill_slot (client_fd s)) [0..<MAX_ACCEPT + 1] pollFds;
              s = emit (Poll (map fd pollFds)) s;
              pollFds = poll_call env pollFds
          in if poll_rc env = 0 then Inr s
             else foldE (poll_serve env pollFds) [0..<MAX_ACCEPT + 1] s)"

definition socketSever_Init_poll :: "int \<Rightarrow> int \<Rightarrow> poll_env list \<Rightarrow> server halt + server" where
  \<comment> \<open>the set-up, then as many passes as there are answers\<close>
  "socketSever_Init_poll socket_ret bind_ret envs =
     bindE (poll_init socket_ret bind_ret static_server) (\<lambda>s. lift_fault (foldE poll_pass envs s))"

section \<open>What is polled\<close>

text \<open>Only used slots are written, so the entry of a free slot is what the allocator returned.\<close>

definition polled_fd :: "pollfd list \<Rightarrow> int list \<Rightarrow> nat \<Rightarrow> int" where
  "polled_fd blk t i = (if t ! i \<noteq> -1 then t ! i else fd (blk ! i))"

lemma fill_slot_nth:
  "fill_slot t j b ! i = (if i = j \<and> t ! j \<noteq> -1 \<and> j < length b then (b ! j)\<lparr>fd := t ! j, events := POLL_EVENTS\<rparr> else b ! i)"
  by (cases "j < length b") (auto simp: fill_slot_def nth_list_update list_update_beyond)

lemma length_fill_slot [simp]: "length (fill_slot t j b) = length b"
  by (simp add: fill_slot_def)

lemma fill_slots:
  "length (fold (fill_slot t) [0..<n] b) = length b \<and>
   (\<forall>i < length b. fold (fill_slot t) [0..<n] b ! i =
      (if i < n \<and> t ! i \<noteq> -1 then (b ! i)\<lparr>fd := t ! i, events := POLL_EVENTS\<rparr> else b ! i))"
  by (induction n) (auto simp: fill_slot_nth less_Suc_eq)

section \<open>What a pass is to do\<close>

text \<open>
  Documented answers: the allocated block has the size asked for, \<^verbatim>\<open>accept\<close> fails or returns a
  descriptor that is not open, so a different one each time, \<^verbatim>\<open>read\<close> returns at most what was asked for.
\<close>

definition poll_answers :: "poll_env \<Rightarrow> int \<Rightarrow> int list \<Rightarrow> bool" where
  "poll_answers env l t \<longleftrightarrow> (case block env of None \<Rightarrow> True | Some blk \<Rightarrow> length blk = 6)
    \<and> (\<forall>i. poll_read_ret env i \<le> int BUFFER_SIZE)
    \<and> (\<forall>i \<in> {0..<6}. fresh l (poll_accept_ret env i) t \<and>
         (\<forall>j \<in> {0..<i}. poll_accept_ret env i = poll_accept_ret env j \<longrightarrow> poll_accept_ret env i \<le> 0))"

text \<open>Whether slot \<open>i\<close> is served: what \<^verbatim>\<open>poll\<close> reported, or what was in memory when it failed.\<close>

definition event :: "poll_env \<Rightarrow> pollfd list \<Rightarrow> nat \<Rightarrow> bool" where
  "event env blk i \<longleftrightarrow> (if poll_rc env < 0 then revents (blk ! i) \<noteq> 0 else poll_rc env \<noteq> 0 \<and> reported env i \<noteq> 0)"

text \<open>
  The pass, slot by slot: the slot of the listener, and a free slot whose entry happens to name it, accepts
  a connection into the first free slot; any other slot is freed if its read fails.
\<close>

definition poll_slot :: "poll_env \<Rightarrow> pollfd list \<Rightarrow> int \<Rightarrow> int list \<Rightarrow> nat \<Rightarrow> int list \<Rightarrow> int list" where
  "poll_slot env blk l t0 i t = slot_step (event env blk i) (polled_fd blk t0 i = l) (poll_accept_ret env i) (poll_read_ret env i) i t"

definition poll_step :: "poll_env \<Rightarrow> int \<Rightarrow> int list \<Rightarrow> int list" where
  \<comment> \<open>a pass for which no memory was allocated does nothing\<close>
  "poll_step env l t = (case block env of None \<Rightarrow> t | Some blk \<Rightarrow> fold (poll_slot env blk l (t[0 := l])) [0..<6] (t[0 := l]))"

lemma polled_entry:
  assumes "length b = 6" "i < 6"
  shows "fd (poll_call env (fold (fill_slot t) [0..<6] b) ! i) = polled_fd b t i"
    and "poll_rc env \<noteq> 0 \<Longrightarrow> (revents (poll_call env (fold (fill_slot t) [0..<6] b) ! i) \<noteq> 0) = event env b i"
  using assms fill_slots [of t 6 b] by (auto simp: poll_call_def polled_fd_def event_def)

lemma poll_serve_loop:
  assumes serv: "serving l s" and ans: "poll_answers env l (client_fd s)" and n: "n \<le> 6"
    and pf: "\<forall>i < 6. fd (pf ! i) = polled_fd blk (client_fd s) i \<and> (revents (pf ! i) \<noteq> 0) = event env blk i"
  shows "\<exists>s'. foldE (poll_serve env pf) [0..<n] s = Inr s' \<and> serving l s'
    \<and> client_fd s' = fold (poll_slot env blk l (client_fd s)) [0..<n] (client_fd s)
    \<and> set (client_fd s') \<subseteq> Set.insert (-1) (set (client_fd s) \<union> poll_accept_ret env ` {0..<n})
    \<and> closes (trace s') \<subseteq> Set.insert (-1) (closes (trace s))"
  using n
proof (induction n)
  case 0
  with serv show ?case by auto
next
  case (Suc n)
  then obtain s1 where s1: "foldE (poll_serve env pf) [0..<n] s = Inr s1" "serving l s1"
      "client_fd s1 = fold (poll_slot env blk l (client_fd s)) [0..<n] (client_fd s)"
      "set (client_fd s1) \<subseteq> Set.insert (-1) (set (client_fd s) \<union> poll_accept_ret env ` {0..<n})"
      "closes (trace s1) \<subseteq> Set.insert (-1) (closes (trace s))" by auto
  let ?listening = "polled_fd blk (client_fd s) n = l" and ?new = "poll_accept_ret env n" and ?r = "poll_read_ret env n"
  have "polled_fd blk (client_fd s) 0 = l" using servingD(2,3) [OF serv] by (auto simp: polled_fd_def table_ok_def)
  then have m: "\<not> ?listening \<Longrightarrow> n \<in> {1..<6}" using Suc.prems by (cases n) auto
  have n: "n \<in> {0..<6}" using Suc.prems by simp
  have acc: "fresh l ?new (client_fd s1)"
  proof -
    have f: "fresh l ?new (client_fd s)" and d: "\<forall>j \<in> {0..<n}. ?new = poll_accept_ret env j \<longrightarrow> ?new \<le> 0"
      using ans n unfolding poll_answers_def by blast+
    have "?new \<notin> set (client_fd s1)" if "0 < ?new"
    proof
      assume "?new \<in> set (client_fd s1)"
      with s1(4) that f obtain j where "j \<in> {0..<n}" "?new = poll_accept_ret env j" by (auto simp: fresh_def)
      with d that show False by auto
    qed
    with f show ?thesis by (auto simp: fresh_def)
  qed
  have rd: "?r \<le> int BUFFER_SIZE" using ans by (simp add: poll_answers_def)
  have body: "foldE (poll_serve env pf) [0..<Suc n] s = (if event env blk n then
      if ?listening then Inr (accept_client ?new (poll_accept_addr env n) n s1) else receive_client ?r (poll_read_data env n) n s1 else Inr s1)"
    using s1(1) pf n servingD(1) [OF s1(2)] by (simp add: foldE_append poll_serve_def)
  obtain s2 where s2: "foldE (poll_serve env pf) [0..<Suc n] s = Inr s2" "serving l s2"
      "client_fd s2 = slot_step (event env blk n) ?listening ?new ?r n (client_fd s1)" "closes (trace s2) \<subseteq> Set.insert (-1) (closes (trace s1))"
    unfolding body using serving_slot [OF s1(2), of ?listening ?new n ?r "event env blk n"] acc m rd by blast
  have tab: "client_fd s2 = fold (poll_slot env blk l (client_fd s)) [0..<Suc n] (client_fd s)"
    using s2(3) s1(3) by (simp add: poll_slot_def)
  have "set (client_fd s2) \<subseteq> Set.insert (-1) (set (client_fd s) \<union> poll_accept_ret env ` {0..<Suc n})"
    using s2(3) set_slot_step [of "event env blk n" ?listening ?new ?r n "client_fd s1"] s1(4) by (auto simp: atLeast0_lessThan_Suc)
  moreover have "closes (trace s2) \<subseteq> Set.insert (-1) (closes (trace s))" using s2(4) s1(5) by auto
  ultimately show ?case using s2(1,2) tab by blast
qed

lemma poll_pass_unfold:
  assumes "block env = Some blk" "length blk = 6"
  shows "poll_pass env s =
    (let t = (client_fd s)[0 := listen_socketFd s]; pf = fold (fill_slot t) [0..<6] blk;
         s' = emit (Poll (map fd pf)) (s\<lparr>client_fd := t\<rparr>)
     in if poll_rc env = 0 then Inr s' else foldE (poll_serve env (poll_call env pf)) [0..<6] s')"
proof -
  have "[0..<MAX_ACCEPT + 1] = [0..<6]" by (simp add: MAX_ACCEPT_def)
  then show ?thesis using assms(1) by (simp add: poll_pass_def Let_def del: upt_Suc)
qed

lemma poll_pass_effect:
  assumes inv: "table_inv s" and ans: "poll_answers env (listen_socketFd s) (client_fd s)"
  shows "\<exists>s'. poll_pass env s = Inr s' \<and> table_inv s' \<and> listen_socketFd s' = listen_socketFd s
    \<and> client_fd s' = poll_step env (listen_socketFd s) (client_fd s)
    \<and> closes (trace s') \<subseteq> Set.insert (-1) (closes (trace s))"
proof (cases "block env")
  case None
  with inv show ?thesis by (auto simp: poll_pass_def poll_step_def)
next
  case (Some blk)
  let ?l = "listen_socketFd s" and ?t = "(client_fd s)[0 := listen_socketFd s]"
  let ?pf = "fold (fill_slot ?t) [0..<6] blk"
  let ?s = "emit (Poll (map fd ?pf)) (s\<lparr>client_fd := ?t\<rparr>)"
  have blk: "length blk = 6" using ans Some by (simp add: poll_answers_def)
  have serv: "serving ?l ?s" "client_fd ?s = ?t" using with_listener(2) [OF inv] by simp_all
  have cl: "closes (trace ?s) = closes (trace s)" by (auto simp: closes_def)
  show ?thesis
  proof (cases "poll_rc env = 0")
    case True
    have "fold (poll_slot env blk ?l ?t) is ?t = ?t" for "is"
      using True by (induction "is") (simp_all add: poll_slot_def slot_step_def event_def)
    then have "poll_step env ?l (client_fd s) = ?t" using Some by (simp add: poll_step_def)
    moreover have "poll_pass env s = Inr ?s" using True poll_pass_unfold [OF Some blk, of s] by (simp add: Let_def)
    ultimately show ?thesis using serving_inv [OF serv(1)] servingD(1) [OF serv(1)] serv(2) cl by auto
  next
    case False
    have pf: "\<forall>i < 6. fd (poll_call env ?pf ! i) = polled_fd blk (client_fd ?s) i \<and> (revents (poll_call env ?pf ! i) \<noteq> 0) = event env blk i"
      using polled_entry [OF blk] False serv(2) by simp
    have "set ?t \<subseteq> Set.insert ?l (set (client_fd s))" by (rule set_update_subset_insert)
    then have "poll_answers env ?l (client_fd ?s)" using ans unfolding poll_answers_def fresh_def serv(2) by blast
    from poll_serve_loop [OF serv(1) this order_refl pf] obtain s' where
      s': "foldE (poll_serve env (poll_call env ?pf)) [0..<6] ?s = Inr s'" "serving ?l s'"
      "client_fd s' = fold (poll_slot env blk ?l (client_fd ?s)) [0..<6] (client_fd ?s)"
      "closes (trace s') \<subseteq> Set.insert (-1) (closes (trace ?s))" by blast
    moreover have "poll_pass env s = Inr s'" using False s'(1) poll_pass_unfold [OF Some blk, of s] by (simp add: Let_def del: upt_Suc)
    ultimately show ?thesis
      using serving_inv [OF s'(2)] servingD(1) [OF s'(2)] cl Some serv(2) by (auto simp: poll_step_def)
  qed
qed

text \<open>
  In the ordinary case, in which no entry left uninitialised brings an event of the listener, a pass does what the
  \<^verbatim>\<open>select\<close> server does: one connection at most, and every other slot with an event is freed if its read fails.
\<close>

lemma fold_updates:
  assumes "length t = n" "i < n"
  shows "fold (\<lambda>i t. if P i then t[i := -1] else t) [k..<n] t ! i = (if k \<le> i \<and> P i then -1 else t ! i)"
proof -
  have "fold (\<lambda>i t. if P i then t[i := -1] else t) [k..<m] t ! i = (if k \<le> i \<and> i < m \<and> P i then -1 else t ! i) \<and>
      length (fold (\<lambda>i t. if P i then t[i := -1] else t) [k..<m] t) = n" for m
    using assms by (induction m) (auto simp: nth_list_update less_Suc_eq)
  then show ?thesis using assms by simp
qed

lemma poll_step_slots:
  assumes "block env = Some blk" "length t = 6" "\<forall>i \<in> {1..<6}. event env blk i \<longrightarrow> polled_fd blk (t[0 := l]) i \<noteq> l" "0 < l" "i < 6"
  shows "poll_step env l t ! i =
    (let t1 = (if event env blk 0 then take_conn (poll_accept_ret env 0) (t[0 := l]) else t[0 := l])
     in if 0 < i \<and> event env blk i \<and> poll_read_ret env i < 0 then -1 else t1 ! i)"
proof -
  let ?t = "t[0 := l]" and ?t1 = "if event env blk 0 then take_conn (poll_accept_ret env 0) (t[0 := l]) else t[0 := l]"
  let ?g = "\<lambda>i t. if event env blk i \<and> poll_read_ret env i < 0 then t[i := -1] else t"
  have zero: "polled_fd blk ?t 0 = l" using assms(2,4) by (simp add: polled_fd_def)
  have "[0..<6] = 0 # [1..<6]" by (simp add: upt_rec)
  then have "poll_step env l t = fold (poll_slot env blk l ?t) [1..<6] ?t1"
    using assms(1) zero by (simp add: poll_step_def) (simp add: poll_slot_def slot_step_def)
  also have "\<dots> = fold ?g [1..<6] ?t1"
    using assms(3) by (intro fold_cong refl) (auto simp: poll_slot_def slot_step_def fun_eq_iff)
  finally have "poll_step env l t ! i = fold ?g [1..<6] ?t1 ! i" by simp
  also have "\<dots> = (if 1 \<le> i \<and> event env blk i \<and> poll_read_ret env i < 0 then -1 else ?t1 ! i)"
    using assms(2,5) by (intro fold_updates) (auto simp: take_conn_def)
  finally show ?thesis by (simp add: Let_def Suc_le_eq)
qed

end
