(* ===== verification/Epoll_Server.thy ===== *)
theory Epoll_Server
  imports Select_Server
begin

text \<open>
  \<^verbatim>\<open>socketSeverInit_epoll\<close> of \<^verbatim>\<open>linux_socket_example/server.c\<close>: the set-up and one pass of its endless
  loop, with the answers of the system calls as arguments. The code calls \<^verbatim>\<open>handleReceiveData\<close> with the
  descriptor as an additional first argument, which its definition does not take; the model passes
  the data and the length. What the kernel watches is not state of the program: it is read off
  the trace.
\<close>

section \<open>Set-up\<close>

definition epoll_init :: "int \<Rightarrow> int \<Rightarrow> int \<Rightarrow> int \<Rightarrow> server \<Rightarrow> server halt + int \<times> server" where
  "epoll_init socket_ret bind_ret create_ret add_ret s =
     (let s = emit (Socket socket_ret) (s\<lparr>listen_socketFd := socket_ret\<rparr>) in
      if listen_socketFd s < 0 then Inl (Return (-1) s)
      else let s = emit (SetReuseAddr (listen_socketFd s)) s;
               s = emit (Bind (listen_socketFd s) (serv_addr 777)) s in
      if bind_ret < 0 then Inl (Exit 1 s)
      else let s = emit (Listen (listen_socketFd s) 5) s;
               s = emit (FcntlNonblock (listen_socketFd s)) s;
               s = reset_table s;
               epollFd = create_ret;
               s = emit (EpollCreate (MAX_ACCEPT + 1)) s in
      if epollFd = -1 then Inl (Return 0 s)
      else let s = s\<lparr>client_fd := (client_fd s)[0 := listen_socketFd s]\<rparr>;
               s = emit (EpollAdd epollFd (listen_socketFd s)) s in
      if add_ret = -1 then Inl (Exit 1 s)
      else Inr (epollFd, s))"

section \<open>One pass\<close>

record epoll_event =
  ev_events :: u32
  ev_fd :: int

definition EPOLLIN :: u32 where
  "EPOLLIN = 1"

record epoll_env =
  wait_rc :: int
  got :: "nat \<Rightarrow> epoll_event"
  ep_accept_ret :: "nat \<Rightarrow> int"
  ep_accept_addr :: "nat \<Rightarrow> sockaddr_in"
  ctl_add_ret :: "nat \<Rightarrow> int"
  recv_ret :: "nat \<Rightarrow> int"
  recv_data :: "nat \<Rightarrow> u8 list"
  ctl_del_ret :: "nat \<Rightarrow> int"

text \<open>
  The length handed to \<^verbatim>\<open>accept\<close> is \<^verbatim>\<open>sizeof(socklen_t)\<close>, four bytes: the kernel stores the family and
  the port and cuts the address off.
\<close>

definition truncated_store :: "sockaddr_in \<Rightarrow> sockaddr_in \<Rightarrow> sockaddr_in" where
  "truncated_store peer old = old\<lparr>sin_family := sin_family peer, sin_port := sin_port peer\<rparr>"

definition epoll_accept :: "int \<Rightarrow> epoll_env \<Rightarrow> nat \<Rightarrow> server \<Rightarrow> server halt + server" where
  "epoll_accept epollFd env Idx s =
     (let new_server_socket = ep_accept_ret env Idx; s = emit (Accept (listen_socketFd s)) s in
      if new_server_socket \<ge> 0 \<and> Idx \<ge> length (client_addr s) then Inl (Fault OutOfBounds)
      else
        let s = (if new_server_socket \<ge> 0
                 then s\<lparr>client_addr := (client_addr s)[Idx := truncated_store (ep_accept_addr env Idx) (client_addr s ! Idx)]\<rparr>
                 else s) in
        if new_server_socket > 0 then
          let s = emit (FcntlNonblock new_server_socket) s;
              s = emit (EpollAdd epollFd new_server_socket) s in
          if ctl_add_ret env Idx = -1 then Inl (Exit 1 s)
          else Inr (s\<lparr>client_fd := slot_alloc new_server_socket (client_fd s)\<rparr>)
        else Inl (Exit 1 s))"

definition epoll_receive :: "int \<Rightarrow> epoll_env \<Rightarrow> nat \<Rightarrow> server \<Rightarrow> server halt + server" where
  "epoll_receive epollFd env Idx s =
     (let fd = ev_fd (got env Idx);
          s = emit (Recv fd) (s\<lparr>buffer := fill_buffer (recv_data env Idx)\<rparr>);
          readlength = recv_ret env Idx in
      if readlength = 0 then
        let s = s\<lparr>client_fd := slot_clear fd (client_fd s)\<rparr>;
            s = emit (EpollDel epollFd fd) s in
        if ctl_del_ret env Idx = -1 then Inl (Exit (-1) s)
        else Inr (emit (Close fd) s)
      else if readlength < 0 then Inr s
      else lift_fault (handleReceiveData (buffer s) (nat readlength) s))"

definition epoll_serve :: "int \<Rightarrow> epoll_env \<Rightarrow> nat \<Rightarrow> server \<Rightarrow> server halt + server" where
  \<comment> \<open>the array of events has 100 entries\<close>
  "epoll_serve epollFd env Idx s =
     (if Idx \<ge> 100 then Inl (Fault OutOfBounds)
      else if ev_fd (got env Idx) = listen_socketFd s then epoll_accept epollFd env Idx s
      else if ev_events (got env Idx) AND EPOLLIN \<noteq> 0 then epoll_receive epollFd env Idx s
      else Inr s)"

definition epoll_pass :: "int \<Rightarrow> epoll_env \<Rightarrow> server \<Rightarrow> server halt + server" where
  "epoll_pass epollFd env s =
     (let s = emit (EpollWait epollFd) s; rc = wait_rc env in
      if rc = 0 then Inr s
      else if rc = -1 then Inl (Exit 1 (emit (Close (listen_socketFd s)) s))
      else foldE (epoll_serve epollFd env) [0..<nat rc] s)"

definition socketSeverInit_epoll :: "int \<Rightarrow> int \<Rightarrow> int \<Rightarrow> int \<Rightarrow> epoll_env list \<Rightarrow> server halt + server" where
  \<comment> \<open>the set-up, then as many passes as there are answers\<close>
  "socketSeverInit_epoll socket_ret bind_ret create_ret add_ret envs =
     bindE (epoll_init socket_ret bind_ret create_ret add_ret static_server) (\<lambda>(epollFd, s). foldE (epoll_pass epollFd) envs s)"

section \<open>The connections of a server\<close>

text \<open>What the kernel watches, and what the server has closed, after the calls of a trace.\<close>

fun watch_step :: "int \<Rightarrow> syscall \<Rightarrow> int set \<Rightarrow> int set" where
  "watch_step ep (EpollAdd e fd) W = (if e = ep then Set.insert fd W else W)"
| "watch_step ep (EpollDel e fd) W = (if e = ep then W - {fd} else W)"
| "watch_step ep _ W = W"

definition watched :: "int \<Rightarrow> syscall list \<Rightarrow> int set" where
  "watched ep tr = fold (watch_step ep) tr {}"

fun closed_by :: "syscall \<Rightarrow> int list" where
  "closed_by (Close fd) = [fd]"
| "closed_by _ = []"

definition closed_fds :: "syscall list \<Rightarrow> int list" where
  "closed_fds tr = concat (map closed_by tr)"

lemma watched_append [simp]: "watched ep (tr @ cs) = fold (watch_step ep) cs (watched ep tr)"
  by (simp add: watched_def)

lemma closed_fds_append [simp]: "closed_fds (tr @ cs) = closed_fds tr @ concat (map closed_by cs)"
  by (simp add: closed_fds_def)

text \<open>
  The abstract server: a set of descriptors. A listener event adds the new connection, the end of a
  connection's stream removes it, everything else leaves the set alone.
\<close>

definition hangup :: "int \<Rightarrow> epoll_env \<Rightarrow> nat \<Rightarrow> bool" where
  "hangup l env i \<longleftrightarrow> ev_fd (got env i) \<noteq> l \<and> ev_events (got env i) AND EPOLLIN \<noteq> 0 \<and> recv_ret env i = 0"

definition conn_step :: "int \<Rightarrow> epoll_env \<Rightarrow> nat \<Rightarrow> int set \<Rightarrow> int set" where
  "conn_step l env i W =
     (if ev_fd (got env i) = l then Set.insert (ep_accept_ret env i) W
      else if hangup l env i then W - {ev_fd (got env i)} else W)"

definition conns :: "int \<Rightarrow> epoll_env \<Rightarrow> nat \<Rightarrow> int set \<Rightarrow> int set" where
  "conns l env n W = fold (conn_step l env) [0..<n] W"

definition hangups :: "int \<Rightarrow> epoll_env \<Rightarrow> nat \<Rightarrow> int list" where
  "hangups l env n = map (\<lambda>i. ev_fd (got env i)) (filter (hangup l env) [0..<n])"

lemma conns_0 [simp]: "conns l env 0 W = W" by (simp add: conns_def)
lemma conns_Suc [simp]: "conns l env (Suc n) W = conn_step l env n (conns l env n W)" by (simp add: conns_def)
lemma hangups_0 [simp]: "hangups l env 0 = []" by (simp add: hangups_def)
lemma hangups_Suc [simp]: "hangups l env (Suc n) = hangups l env n @ (if hangup l env n then [ev_fd (got env n)] else [])"
  by (simp add: hangups_def)

text \<open>
  The table is a partial record of the watched set: it never names a connection that is gone (slot 5
  starts at 0 and is no connection), but connections beyond its capacity are watched without a slot.
\<close>

definition epoll_inv :: "int \<Rightarrow> server \<Rightarrow> bool" where
  "epoll_inv ep s \<longleftrightarrow> length (client_fd s) = 6 \<and> length (client_addr s) = 6 \<and> length (buffer s) = BUFFER_SIZE
    \<and> 0 < listen_socketFd s \<and> listen_socketFd s \<in> watched ep (trace s)
    \<and> client_fd s ! 0 = listen_socketFd s \<and> distinct_fds (client_fd s)
    \<and> set (client_fd s) \<subseteq> {-1, 0} \<union> watched ep (trace s)"

text \<open>
  Documented answers: \<^verbatim>\<open>epoll_wait\<close> fails with -1 or reports at most the 100 events there is room for, \<^verbatim>\<open>accept\<close>
  returns no descriptor that is open at that moment, \<^verbatim>\<open>recv\<close> returns at most what was asked for. Every call may fail.
\<close>

definition epoll_answers :: "int \<Rightarrow> epoll_env \<Rightarrow> server \<Rightarrow> bool" where
  "epoll_answers ep env s \<longleftrightarrow> -1 \<le> wait_rc env \<and> wait_rc env \<le> 100 \<and>
     (\<forall>i < nat (wait_rc env). recv_ret env i \<le> int BUFFER_SIZE \<and>
        (ev_fd (got env i) = listen_socketFd s \<and> 0 < ep_accept_ret env i \<longrightarrow>
           ep_accept_ret env i \<notin> conns (listen_socketFd s) env i (watched ep (trace s))))"

text \<open>
  Where an event ends the program: a connection accepted at position 6 or later, whose address is stored
  outside the array; no connection to accept; a failed change of the watched set.
\<close>

definition event_stop :: "int \<Rightarrow> epoll_env \<Rightarrow> nat \<Rightarrow> unit halt option" where
  "event_stop l env i =
     (if ev_fd (got env i) = l then
        if 0 \<le> ep_accept_ret env i \<and> 6 \<le> i then Some (Fault OutOfBounds)
        else if ep_accept_ret env i \<le> 0 \<or> ctl_add_ret env i = -1 then Some (Exit 1 ()) else None
      else if hangup l env i \<and> ctl_del_ret env i = -1 then Some (Exit (-1) ()) else None)"

definition first_stop :: "int \<Rightarrow> epoll_env \<Rightarrow> nat \<Rightarrow> nat option" where
  "first_stop l env n = find (\<lambda>i. event_stop l env i \<noteq> None) [0..<n]"

text \<open>How a pass may end short, with the connections closed until then.\<close>

definition stops :: "unit halt \<Rightarrow> int list \<Rightarrow> server halt \<Rightarrow> bool" where
  "stops h cs h' \<longleftrightarrow> (case h' of Fault f \<Rightarrow> h = Fault f | Exit c s \<Rightarrow> h = Exit c () \<and> closed_fds (trace s) = cs | Return c s \<Rightarrow> False)"

lemma stops_iff [simp]:
  "stops (Fault f) cs h' \<longleftrightarrow> h' = Fault f" "stops (Exit c u) cs h' \<longleftrightarrow> (\<exists>s. h' = Exit c s \<and> closed_fds (trace s) = cs)"
  by (auto simp: stops_def split: halt.splits)

section \<open>A pass on a well-formed table\<close>

lemma slot_clear_gone:
  assumes "distinct_fds t" "fd \<noteq> -1"
  shows "distinct_fds (slot_clear fd t)" "set (slot_clear fd t) \<subseteq> Set.insert (-1) (set t - {fd})"
    "t ! 0 \<noteq> fd \<Longrightarrow> slot_clear fd t ! 0 = t ! 0"
proof -
  have "distinct_fds (slot_clear fd t) \<and> set (slot_clear fd t) \<subseteq> Set.insert (-1) (set t - {fd}) \<and>
    (t ! 0 \<noteq> fd \<longrightarrow> slot_clear fd t ! 0 = t ! 0)"
  proof (cases rule: replace_first_cases [of fd t "-1"])
    case absent
    with assms show ?thesis by (auto simp: slot_clear_def)
  next
    case (found i)
    have "fd \<notin> set (t[i := -1])"
      using found assms by (auto simp: distinct_fds_def in_set_conv_nth nth_list_update split: if_splits) (metis nat_neq_iff)
    moreover have "set (t[i := -1]) \<subseteq> Set.insert (-1) (set t)" by (rule set_update_subset_insert)
    moreover have "t ! 0 \<noteq> fd \<Longrightarrow> i \<noteq> 0" using found(2) by metis
    ultimately show ?thesis using found assms distinct_fds_clear by (auto simp: slot_clear_def)
  qed
  then show "distinct_fds (slot_clear fd t)" "set (slot_clear fd t) \<subseteq> Set.insert (-1) (set t - {fd})"
    "t ! 0 \<noteq> fd \<Longrightarrow> slot_clear fd t ! 0 = t ! 0" by auto
qed

lemma slot_alloc_new:
  assumes "t ! 0 \<noteq> -1"
  shows "set (slot_alloc fd t) \<subseteq> Set.insert fd (set t)" "slot_alloc fd t ! 0 = t ! 0"
  using assms set_update_subset_insert
  by (cases rule: replace_first_cases [of "-1" t fd]; force simp: slot_alloc_def nth_list_update)+

lemma epoll_accept_ok:
  assumes inv: "epoll_inv ep s" and i: "i < 6" and new: "0 < ep_accept_ret env i" "ep_accept_ret env i \<notin> watched ep (trace s)"
    and add: "ctl_add_ret env i \<noteq> -1"
  shows "\<exists>s'. epoll_accept ep env i s = Inr s' \<and> epoll_inv ep s' \<and> listen_socketFd s' = listen_socketFd s \<and>
    watched ep (trace s') = Set.insert (ep_accept_ret env i) (watched ep (trace s)) \<and> closed_fds (trace s') = closed_fds (trace s)"
proof -
  have "ep_accept_ret env i \<notin> set (client_fd s)" "client_fd s ! 0 \<noteq> -1" using inv new by (auto simp: epoll_inv_def)
  with inv new slot_alloc_new [of "client_fd s" "ep_accept_ret env i"] distinct_fds_alloc [of "client_fd s" "ep_accept_ret env i"] i add
  show ?thesis by (auto simp: epoll_accept_def epoll_inv_def Let_def)
qed

lemma epoll_receive_ok:
  assumes inv: "epoll_inv ep s" and fd: "fd = ev_fd (got env i)" "fd \<noteq> listen_socketFd s"
    and ret: "recv_ret env i \<le> int BUFFER_SIZE" "recv_ret env i = 0 \<longrightarrow> ctl_del_ret env i \<noteq> -1"
  shows "\<exists>s'. epoll_receive ep env i s = Inr s' \<and> epoll_inv ep s' \<and> listen_socketFd s' = listen_socketFd s \<and>
    (if recv_ret env i = 0
     then watched ep (trace s') = watched ep (trace s) - {fd} \<and> closed_fds (trace s') = closed_fds (trace s) @ [fd]
     else watched ep (trace s') = watched ep (trace s) \<and> closed_fds (trace s') = closed_fds (trace s))"
proof (cases "recv_ret env i = 0")
  case True
  have "fd = -1 \<Longrightarrow> slot_clear fd (client_fd s) = client_fd s"
    using replace_first_cases [of "-1" "client_fd s" "-1"] by (metis list_update_id slot_clear_def)
  with inv fd slot_clear_gone [of "client_fd s" fd]
  have "epoll_inv ep (s\<lparr>buffer := fill_buffer (recv_data env i), client_fd := slot_clear fd (client_fd s),
      trace := trace s @ [Recv fd, EpollDel ep fd, Close fd]\<rparr>)"
    by (cases "fd = -1") (fastforce simp: epoll_inv_def)+
  with True fd ret show ?thesis
    by (auto simp: epoll_receive_def Let_def emit_def)
next
  case False
  with inv fd ret show ?thesis
    by (auto simp: epoll_receive_def Let_def epoll_inv_def handleReceiveData_def dump_loop_eq nat_le_iff)
qed

lemma epoll_serve_go:
  assumes inv: "epoll_inv ep s" and i: "i < 100" and go: "event_stop (listen_socketFd s) env i = None"
    and acc: "ev_fd (got env i) = listen_socketFd s \<and> 0 < ep_accept_ret env i \<longrightarrow> ep_accept_ret env i \<notin> watched ep (trace s)"
    and ret: "recv_ret env i \<le> int BUFFER_SIZE"
  shows "\<exists>s'. epoll_serve ep env i s = Inr s' \<and> epoll_inv ep s' \<and> listen_socketFd s' = listen_socketFd s \<and>
    watched ep (trace s') = conn_step (listen_socketFd s) env i (watched ep (trace s)) \<and>
    closed_fds (trace s') = closed_fds (trace s) @ (if hangup (listen_socketFd s) env i then [ev_fd (got env i)] else [])"
proof (cases "ev_fd (got env i) = listen_socketFd s")
  case True
  with go have "0 < ep_accept_ret env i" "i < 6" "ctl_add_ret env i \<noteq> -1" by (auto simp: event_stop_def split: if_splits)
  with epoll_accept_ok [OF inv, of i env] True i acc show ?thesis by (auto simp: epoll_serve_def conn_step_def hangup_def)
next
  case other: False
  show ?thesis
  proof (cases "ev_events (got env i) AND EPOLLIN = 0")
    case True
    with other i inv show ?thesis by (simp add: epoll_serve_def conn_step_def hangup_def)
  next
    case False
    have "recv_ret env i = 0 \<longrightarrow> ctl_del_ret env i \<noteq> -1" using go other False by (auto simp: event_stop_def hangup_def)
    with epoll_receive_ok [OF inv refl other ret] other False i show ?thesis
      by (auto simp: epoll_serve_def conn_step_def hangup_def split: if_splits)
  qed
qed

lemma epoll_serve_stop:
  assumes inv: "epoll_inv ep s" and i: "i < 100" and stop: "event_stop (listen_socketFd s) env i = Some h"
  shows "\<exists>h'. epoll_serve ep env i s = Inl h' \<and> stops h (closed_fds (trace s)) h'"
proof (cases "ev_fd (got env i) = listen_socketFd s")
  case True
  then show ?thesis
    using inv i stop by (auto simp: epoll_serve_def epoll_accept_def event_stop_def epoll_inv_def Let_def split: if_splits)
next
  case False
  with stop have "hangup (listen_socketFd s) env i" "ctl_del_ret env i = -1" "h = Exit (-1) ()" by (auto simp: event_stop_def split: if_splits)
  with False i show ?thesis by (auto simp: epoll_serve_def epoll_receive_def hangup_def Let_def)
qed

lemma find_append: "find P (xs @ ys) = (case find P xs of None \<Rightarrow> find P ys | Some x \<Rightarrow> Some x)"
  by (induction xs) auto

lemma first_stop_simps:
  "first_stop l env 0 = None"
  "first_stop l env (Suc n) = (case first_stop l env n of None \<Rightarrow> if event_stop l env n \<noteq> None then Some n else None | Some k \<Rightarrow> Some k)"
  by (simp_all add: first_stop_def find_append split: option.split)

lemma first_stop_Some: "first_stop l env n = Some k \<Longrightarrow> k < n \<and> event_stop l env k \<noteq> None \<and> (\<forall>i < k. event_stop l env i = None)"
  unfolding first_stop_def by (auto simp: find_Some_iff)

lemma epoll_loop:
  assumes inv: "epoll_inv ep s" and ans: "epoll_answers ep env s" and n: "n \<le> nat (wait_rc env)"
  shows "case first_stop (listen_socketFd s) env n of
      None \<Rightarrow> \<exists>s'. foldE (epoll_serve ep env) [0..<n] s = Inr s' \<and> epoll_inv ep s' \<and> listen_socketFd s' = listen_socketFd s \<and>
        watched ep (trace s') = conns (listen_socketFd s) env n (watched ep (trace s)) \<and>
        closed_fds (trace s') = closed_fds (trace s) @ hangups (listen_socketFd s) env n
    | Some k \<Rightarrow> \<exists>h'. foldE (epoll_serve ep env) [0..<n] s = Inl h' \<and>
        stops (the (event_stop (listen_socketFd s) env k)) (closed_fds (trace s) @ hangups (listen_socketFd s) env k) h'"
  using n
proof (induction n)
  case 0
  with inv show ?case by (simp add: first_stop_simps)
next
  case (Suc n)
  let ?l = "listen_socketFd s"
  have i: "n < 100" "recv_ret env n \<le> int BUFFER_SIZE"
      "ev_fd (got env n) = ?l \<and> 0 < ep_accept_ret env n \<longrightarrow> ep_accept_ret env n \<notin> conns ?l env n (watched ep (trace s))"
    using ans Suc.prems by (auto simp: epoll_answers_def)
  show ?case
  proof (cases "first_stop ?l env n")
    case (Some k)
    with Suc show ?thesis by (auto simp: first_stop_simps foldE_append)
  next
    case None
    with Suc obtain s1 where s1: "foldE (epoll_serve ep env) [0..<n] s = Inr s1" "epoll_inv ep s1" "listen_socketFd s1 = ?l"
      "watched ep (trace s1) = conns ?l env n (watched ep (trace s))" "closed_fds (trace s1) = closed_fds (trace s) @ hangups ?l env n" by auto
    show ?thesis
    proof (cases "event_stop ?l env n")
      case (Some h)
      with epoll_serve_stop [OF s1(2) i(1), of env h] s1 None show ?thesis by (auto simp: first_stop_simps foldE_append)
    next
      case go: None
      obtain s2 where "epoll_serve ep env n s1 = Inr s2" "epoll_inv ep s2" "listen_socketFd s2 = ?l"
          "watched ep (trace s2) = conn_step ?l env n (watched ep (trace s1))"
          "closed_fds (trace s2) = closed_fds (trace s1) @ (if hangup ?l env n then [ev_fd (got env n)] else [])"
        using epoll_serve_go [OF s1(2) i(1), of env] go i(2,3) s1(3,4) by auto
      with s1 None go show ?thesis by (simp add: first_stop_simps foldE_append)
    qed
  qed
qed

text \<open>A pass, for any answers: it fails to wait, is stopped by an event, or comes to its end.\<close>

definition epoll_outcome :: "int \<Rightarrow> epoll_env \<Rightarrow> int \<Rightarrow> int set \<Rightarrow> int list \<Rightarrow> server halt + server \<Rightarrow> bool" where
  "epoll_outcome ep env l W cs r \<longleftrightarrow>
     (if wait_rc env = -1 then \<exists>h'. r = Inl h' \<and> stops (Exit 1 ()) (cs @ [l]) h'
      else case first_stop l env (nat (wait_rc env)) of
        Some k \<Rightarrow> \<exists>h'. r = Inl h' \<and> stops (the (event_stop l env k)) (cs @ hangups l env k) h'
      | None \<Rightarrow> \<exists>s'. r = Inr s' \<and> epoll_inv ep s' \<and> listen_socketFd s' = l \<and>
          watched ep (trace s') = conns l env (nat (wait_rc env)) W \<and> closed_fds (trace s') = cs @ hangups l env (nat (wait_rc env)))"

lemma epoll_pass_outcome:
  assumes "epoll_inv ep s" "epoll_answers ep env s"
  shows "epoll_outcome ep env (listen_socketFd s) (watched ep (trace s)) (closed_fds (trace s)) (epoll_pass ep env s)"
proof -
  have wait: "epoll_inv ep (emit (EpollWait ep) s)" "epoll_answers ep env (emit (EpollWait ep) s)"
    using assms by (auto simp: epoll_inv_def epoll_answers_def)
  have "wait_rc env = -1 \<or> 0 \<le> wait_rc env" using assms(2) by (auto simp: epoll_answers_def)
  then consider "wait_rc env = -1" | "wait_rc env = 0" | "0 < wait_rc env" by fastforce
  then show ?thesis
  proof cases
    case 1
    then show ?thesis by (simp add: epoll_outcome_def epoll_pass_def Let_def)
  next
    case 2
    with wait(1) show ?thesis by (auto simp: epoll_outcome_def epoll_pass_def first_stop_simps Let_def)
  next
    case 3
    with epoll_loop [OF wait order_refl] show ?thesis by (auto simp: epoll_outcome_def epoll_pass_def Let_def split: option.splits)
  qed
qed


section \<open>The server from start-up\<close>

lemma epoll_init_ok:
  assumes "0 < l" "0 \<le> b" "ep \<noteq> -1" "a \<noteq> -1"
  shows "\<exists>s. epoll_init l b ep a static_server = Inr (ep, s) \<and> epoll_inv ep s \<and> listen_socketFd s = l
    \<and> watched ep (trace s) = {l} \<and> closed_fds (trace s) = []"
proof -
  let ?tr = "[Socket l, SetReuseAddr l, Bind l (serv_addr 777), Listen l 5, FcntlNonblock l]"
  let ?s = "reset_table (static_server\<lparr>listen_socketFd := l, trace := ?tr\<rparr>)"
  let ?s' = "?s\<lparr>client_fd := (client_fd ?s)[0 := l], trace := ?tr @ [EpollCreate (MAX_ACCEPT + 1), EpollAdd ep l]\<rparr>"
  have "static_server\<lparr>listen_socketFd := l, trace := ?tr\<rparr> = static_server\<lparr>listen_socketFd := l\<rparr>\<lparr>trace := ?tr\<rparr>" by simp
  then have "epoll_init l b ep a static_server = Inr (ep, ?s')"
    using assms by (simp add: epoll_init_def Let_def emit_def reset_table_fields) (simp add: static_server_def reset_table_fields)
  moreover have "client_fd ?s' = [l, -1, -1, -1, -1, 0]" "length (client_addr ?s') = 6" "length (buffer ?s') = BUFFER_SIZE"
    by (simp_all add: reset_table_fields reset_table_slots start_table_def) (simp add: static_server_def)
  moreover have "distinct_fds [l, -1, -1, -1, -1, 0]" using assms(1) by (simp add: distinct_fds_Cons) (simp add: distinct_fds_def)
  moreover have "watched ep (trace ?s') = {l}" "closed_fds (trace ?s') = []" by (simp_all add: watched_def closed_fds_def)
  moreover have "listen_socketFd ?s' = l" by (simp add: reset_table_fields)
  ultimately show ?thesis using assms(1) by (intro exI [of _ ?s']) (auto simp: epoll_inv_def)
qed

text \<open>States between passes of a server that started, as long as it runs.\<close>

inductive epoll_reach :: "int \<Rightarrow> server \<Rightarrow> int set \<Rightarrow> int list \<Rightarrow> bool" for ep where
  start: "0 < l \<Longrightarrow> 0 \<le> b \<Longrightarrow> ep \<noteq> -1 \<Longrightarrow> a \<noteq> -1 \<Longrightarrow>
    epoll_init l b ep a static_server = Inr (ep, s) \<Longrightarrow> epoll_reach ep s {l} []"
| pass: "epoll_reach ep s W cs \<Longrightarrow> epoll_answers ep env s \<Longrightarrow> epoll_pass ep env s = Inr s' \<Longrightarrow>
    epoll_reach ep s' (conns (listen_socketFd s) env (nat (wait_rc env)) W)
      (cs @ hangups (listen_socketFd s) env (nat (wait_rc env)))"

lemma epoll_reach_rep:
  assumes "epoll_reach ep s W cs"
  shows "epoll_inv ep s \<and> watched ep (trace s) = W \<and> closed_fds (trace s) = cs"
  using assms
proof (induction rule: epoll_reach.induct)
  case (start l b a s)
  then show ?case using epoll_init_ok [of l b ep a] by auto
next
  case (pass s W cs env s')
  then show ?case using epoll_pass_outcome [of ep s env] by (auto simp: epoll_outcome_def split: if_splits option.splits)
qed

text \<open>
  C6. Refinement: what a started \<^verbatim>\<open>epoll\<close> server does with the answers of a pass, failures included. If waiting
  fails, it closes the listener and exits with 1. Otherwise the events are served in order until one
  stops the program: a connection accepted at position 6 or later is out of bounds, a failed \<^verbatim>\<open>accept\<close> or a
  failed addition to the watched set exits with 1, a failed removal with -1; the connections closed by
  then are those whose stream ended before. If no event stops it, the pass succeeds, the watched
  descriptors change exactly as an abstract set of connections does, the connections closed are those whose
  stream ended, in the order of the events, and the table stays consistent with the watched set.
  The answers are taken to be at most 100 events, no accepted descriptor that is open, and no more bytes
  than asked for.
\<close>

theorem epoll_reach_refines:
  assumes "epoll_reach ep s W cs" "epoll_answers ep env s" "l = listen_socketFd s" "n = nat (wait_rc env)"
  shows "if wait_rc env = -1 then \<exists>s'. epoll_pass ep env s = Inl (Exit 1 s') \<and> closed_fds (trace s') = cs @ [l]
    else case first_stop l env n of
      Some k \<Rightarrow> (case the (event_stop l env k) of
          Exit c _ \<Rightarrow> \<exists>s'. epoll_pass ep env s = Inl (Exit c s') \<and> closed_fds (trace s') = cs @ hangups l env k
        | _ \<Rightarrow> epoll_pass ep env s = Inl (Fault OutOfBounds))
    | None \<Rightarrow> \<exists>s'. epoll_pass ep env s = Inr s' \<and> epoll_inv ep s' \<and>
        watched ep (trace s') = conns l env n W \<and> closed_fds (trace s') = cs @ hangups l env n"
proof -
  have "epoll_inv ep s" "watched ep (trace s) = W" "closed_fds (trace s) = cs"
    using epoll_reach_rep [OF assms(1)] by auto
  note out = epoll_pass_outcome [OF this(1) assms(2), unfolded this(2,3) assms(3) [symmetric] epoll_outcome_def]
  consider "wait_rc env = -1" | "wait_rc env \<noteq> -1" "first_stop l env n = None"
    | k where "wait_rc env \<noteq> -1" "first_stop l env n = Some k" by (cases "first_stop l env n") auto
  then show ?thesis
  proof cases
    case 1
    with out show ?thesis by auto
  next
    case 2
    with out assms(4) show ?thesis by auto
  next
    case (3 k)
    then have "event_stop l env k \<in> {Some (Fault OutOfBounds), Some (Exit 1 ()), Some (Exit (-1) ())}"
      using first_stop_Some [OF 3(2)] by (auto simp: event_stop_def split: if_splits)
    with 3 out assms(4) show ?thesis by auto
  qed
qed

text \<open>A client connects as descriptor 5, sends in the next batch and hangs up in the third, which also has another connection.\<close>

definition epoll_answer :: "int list \<Rightarrow> int \<Rightarrow> int \<Rightarrow> epoll_env" where
  "epoll_answer fds new r = \<lparr>wait_rc = int (length fds), got = (\<lambda>i. \<lparr>ev_events = 1, ev_fd = fds ! i\<rparr>),
     ep_accept_ret = (\<lambda>_. new), ep_accept_addr = (\<lambda>_. zero_addr), ctl_add_ret = (\<lambda>_. 0), recv_ret = (\<lambda>_. r),
     recv_data = (\<lambda>_. []), ctl_del_ret = (\<lambda>_. 0)\<rparr>"

lemma epoll_example_started:
  obtains s where "epoll_reach 4 s {3} []" "epoll_inv 4 s" "listen_socketFd s = 3" "watched 4 (trace s) = {3}"
proof -
  obtain s where "epoll_init 3 0 4 0 static_server = Inr (4, s)" "epoll_inv 4 s" "listen_socketFd s = 3" "watched 4 (trace s) = {3}"
    using epoll_init_ok [of 3 0 4 0] by auto
  with epoll_reach.start [of 3 0 4 0 s] that show ?thesis by simp
qed

lemma epoll_example_stops: "first_stop 3 (epoll_answer [3] 5 0) 1 = None" "first_stop 3 (epoll_answer [5, 3] 6 0) 2 = None"
    "first_stop 3 (epoll_answer [3] (-1) 0) 1 = Some 0" "event_stop 3 (epoll_answer [3] (-1) 0) 0 = Some (Exit 1 ())"
  by code_simp+

lemma epoll_example_conns:
  "conns 3 (epoll_answer [3] 5 0) 1 {3} = {3, 5}" "hangups 3 (epoll_answer [3] 5 0) 1 = []"
  "conns 3 (epoll_answer [5, 3] 6 0) 2 {3, 5} = {3, 6}" "hangups 3 (epoll_answer [5, 3] 6 0) 2 = [5]"
  by (auto simp: conns_def hangups_def conn_step_def hangup_def epoll_answer_def EPOLLIN_def upt_rec)

theorem epoll_reach_refines_witness:
  "\<exists>s s' s''. epoll_pass 4 (epoll_answer [3] 5 0) s = Inr s' \<and> epoll_reach 4 s' {3, 5} [] \<and>
     epoll_pass 4 (epoll_answer [5, 3] 6 0) s' = Inr s'' \<and> watched 4 (trace s'') = {3, 6} \<and> closed_fds (trace s'') = [5] \<and>
     (\<exists>t. epoll_pass 4 (epoll_answer [3] (-1) 0) s' = Inl (Exit 1 t))"
proof -
  obtain s where s: "epoll_reach 4 s {3} []" "epoll_inv 4 s" "listen_socketFd s = 3" "watched 4 (trace s) = {3}"
    by (rule epoll_example_started)
  note one = epoll_example_stops [unfolded One_nat_def] epoll_example_conns [unfolded One_nat_def]
  have a1: "epoll_answers 4 (epoll_answer [3] 5 0) s"
    using s by (simp add: epoll_answers_def epoll_answer_def BUFFER_SIZE_def)
  obtain s' where s': "epoll_pass 4 (epoll_answer [3] 5 0) s = Inr s'"
    using epoll_reach_refines [OF s(1) a1 refl refl] one(1) s(3) by (auto simp: epoll_answer_def)
  have r: "epoll_reach 4 s' {3, 5} []"
    using epoll_reach.pass [OF s(1) a1 s'] one(5,6) s(3) by (simp add: epoll_answer_def)
  have l: "listen_socketFd s' = 3" "watched 4 (trace s') = {3, 5}"
    using epoll_pass_outcome [OF s(2) a1] s' s(3) epoll_reach_rep [OF r]
    by (auto simp: epoll_outcome_def split: if_splits option.splits)
  have "epoll_answers 4 (epoll_answer [5, 3] 6 0) s'" "epoll_answers 4 (epoll_answer [3] (-1) 0) s'"
    using l by (auto simp: epoll_answers_def epoll_answer_def BUFFER_SIZE_def less_2_cases_iff conn_step_def hangup_def)
  note a2 = epoll_reach_refines [OF r this(1) refl refl] and a3 = epoll_reach_refines [OF r this(2) refl refl]
  have rc: "wait_rc (epoll_answer [5, 3] 6 0) = 2" "wait_rc (epoll_answer [3] (-1) 0) = 1" by (simp_all add: epoll_answer_def)
  have "\<exists>t. epoll_pass 4 (epoll_answer [3] (-1) 0) s' = Inl (Exit 1 t)"
    using a3 one(3,4) l(1) unfolding rc by auto
  moreover obtain s'' where "epoll_pass 4 (epoll_answer [5, 3] 6 0) s' = Inr s''" "watched 4 (trace s'') = {3, 6}" "closed_fds (trace s'') = [5]"
    using a2 one(2,7,8) l(1) unfolding rc by auto
  ultimately show ?thesis using s' r by blast
qed



section \<open>The program\<close>

text \<open>\<^verbatim>\<open>main\<close> runs the \<^verbatim>\<open>select\<close> server; the other two are there to be called instead.\<close>

definition main :: "int \<Rightarrow> int \<Rightarrow> select_env list \<Rightarrow> server halt + server" where
  "main socket_ret bind_ret envs = socketSever_Init_select socket_ret bind_ret envs"

end
