(* ===== verification/Server_Runs.thy ===== *)
theory Server_Runs
  imports Poll_Server Epoll_Server
begin

text \<open>
  Whole runs of the \<^verbatim>\<open>select\<close> and the \<^verbatim>\<open>poll\<close> server. Both keep the same table of clients, so one locale
  states what their passes have in common: what a pass comes to, as far as the table goes, is given by a
  step that depends on the answers, the listener and the table alone, and a pass that comes to its
  end keeps the invariant. From that follow whole runs, and the comparison of the two servers.
\<close>

section \<open>Runs of an abstract table\<close>

primrec run_documented :: "('env \<Rightarrow> int \<Rightarrow> int list \<Rightarrow> bool) \<Rightarrow> ('env \<Rightarrow> int \<Rightarrow> int list \<Rightarrow> unit halt + int list) \<Rightarrow> int \<Rightarrow> 'env list \<Rightarrow> int list \<Rightarrow> bool" where
  \<comment> \<open>every pass that is made is answered as documented\<close>
  "run_documented ok step l [] t \<longleftrightarrow> True"
| "run_documented ok step l (e # es) t \<longleftrightarrow> ok e l t \<and> (case step e l t of Inl _ \<Rightarrow> True | Inr t' \<Rightarrow> run_documented ok step l es t')"

definition table_run :: "('env \<Rightarrow> int \<Rightarrow> int list \<Rightarrow> unit halt + int list) \<Rightarrow> int \<Rightarrow> 'env list \<Rightarrow> int list \<Rightarrow> unit halt + int list" where
  "table_run step l es t = foldE (\<lambda>e. step e l) es t"

locale table_server =
  fixes pass :: "'env \<Rightarrow> server \<Rightarrow> server halt + server"
    and inv :: "server \<Rightarrow> bool"
    and ok :: "'env \<Rightarrow> int \<Rightarrow> int list \<Rightarrow> bool"
    and step :: "'env \<Rightarrow> int \<Rightarrow> int list \<Rightarrow> unit halt + int list"
  assumes pass_view: "inv s \<Longrightarrow> ok e (listen_socketFd s) (client_fd s) \<Longrightarrow>
      table_view (pass e s) = step e (listen_socketFd s) (client_fd s)"
    and pass_keeps: "inv s \<Longrightarrow> ok e (listen_socketFd s) (client_fd s) \<Longrightarrow> pass e s = Inr s' \<Longrightarrow>
      inv s' \<and> listen_socketFd s' = listen_socketFd s \<and> closes (trace s') \<subseteq> Set.insert (-1) (closes (trace s))"
begin

lemma run:
  assumes "inv s" "run_documented ok step (listen_socketFd s) es (client_fd s)"
  shows "table_view (foldE pass es s) = table_run step (listen_socketFd s) es (client_fd s) \<and>
    (\<forall>s'. foldE pass es s = Inr s' \<longrightarrow>
      inv s' \<and> listen_socketFd s' = listen_socketFd s \<and> closes (trace s') \<subseteq> Set.insert (-1) (closes (trace s)))"
  using assms
proof (induction es arbitrary: s)
  case Nil
  then show ?case by (auto simp: table_run_def)
next
  case (Cons e es)
  have ok: "ok e (listen_socketFd s) (client_fd s)" using Cons.prems(2) by simp
  note view = pass_view [OF Cons.prems(1) ok]
  show ?case
  proof (cases "pass e s")
    case (Inl h)
    with view have "step e (listen_socketFd s) (client_fd s) = table_view (Inl h)" by simp
    with Inl show ?thesis by (cases h) (simp_all add: table_run_def)
  next
    case (Inr s1)
    note s1 = pass_keeps [OF Cons.prems(1) ok Inr]
    have st: "step e (listen_socketFd s) (client_fd s) = Inr (client_fd s1)" using view Inr by simp
    then have "run_documented ok step (listen_socketFd s1) es (client_fd s1)" using Cons.prems(2) s1 by simp
    note IH = Cons.IH [OF conjunct1 [OF s1] this]
    have "foldE pass (e # es) s = foldE pass es s1"
      and "table_run step (listen_socketFd s) (e # es) (client_fd s) = table_run step (listen_socketFd s1) es (client_fd s1)"
      using Inr st s1 by (simp_all add: table_run_def)
    with IH s1 show ?thesis by (metis insert_absorb2 insert_mono subset_trans)
  qed
qed

end

section \<open>The two servers\<close>


definition poll_view :: "poll_env \<Rightarrow> int \<Rightarrow> int list \<Rightarrow> unit halt + int list" where
  "poll_view env l t = Inr (poll_step env l t)"

lemma poll_view_run: "table_run poll_view l envs t = Inr (fold (\<lambda>env. poll_step env l) envs t)"
  by (induction envs arbitrary: t) (simp_all add: table_run_def poll_view_def)

interpretation pol: table_server "\<lambda>e s. lift_fault (poll_pass e s)" table_inv poll_answers poll_view
proof
  fix s e s'
  assume "table_inv s" "poll_answers e (listen_socketFd s) (client_fd s)"
  note eff = poll_pass_effect [OF this]
  then show "table_view (lift_fault (poll_pass e s)) = poll_view e (listen_socketFd s) (client_fd s)" by (auto simp: poll_view_def)
  assume "lift_fault (poll_pass e s) = Inr s'"
  with eff show "table_inv s' \<and> listen_socketFd s' = listen_socketFd s \<and> closes (trace s') \<subseteq> Set.insert (-1) (closes (trace s))"
    by (auto simp: lift_fault_eq_Inr)
qed

section \<open>Runs from start-up\<close>

lemma lift_fault_foldE: "lift_fault (foldE f xs s) = foldE (\<lambda>x s. lift_fault (f x s)) xs s"
proof (induction xs arbitrary: s)
  case (Cons x xs)
  then show ?case by (cases "f x s") simp_all
qed simp

lemma poll_init_table:
  assumes "0 < l" "0 \<le> b"
  obtains s where "poll_init l b static_server = Inr s" "table_inv s" "listen_socketFd s = l" "client_fd s = start_table" "closes (trace s) = {}"
proof -
  let ?tr = "[Socket l, Bind l (serv_addr 778), Listen l 5, FcntlNonblock l, SetReuseAddr l]"
  let ?s = "reset_table (static_server\<lparr>listen_socketFd := l, trace := ?tr\<rparr>)"
  have "poll_init l b static_server = Inr ?s"
    using assms by (simp add: poll_init_def Let_def emit_def static_server_def)
  moreover note started_inv [OF assms(1), of ?tr]
  moreover have "listen_socketFd ?s = l" "closes (trace ?s) = {}" by (simp_all add: reset_table_fields closes_def)
  ultimately show ?thesis by (intro that)
qed


text \<open>
  C39. Where the undefined look at a free slot stops the program, \<^verbatim>\<open>main\<close> never gets through its first pass,
  whoever connects: at most one of the free slots is taken before the code looks at them all.
\<close>

theorem main_first_pass:
  assumes "0 < l" "0 \<le> b" "select_answers env l start_table" "0 \<le> select_rc env" "stray env 4 = None"
  shows "main l b (env # envs) = Inl (Fault OutOfBounds)"
proof -
  obtain s where s: "select_init l b static_server = Inr s" "select_inv s" "listen_socketFd s = l" "client_fd s = start_table"
    by (rule select_init_table [OF assms(1,2)])
  let ?t = "start_table[0 := l]"
  have t: "first_free ?t = 1" "?t ! 4 = -1" "length ?t = 6" using assms(1) by (simp_all add: start_table_def first_free_def)
  then have "(if c then take_conn new ?t else ?t) ! 4 = -1" for c new by (simp add: take_conn_nth)
  then have "traps env 4 ((if l \<in> set (ready env) then take_conn (accept_ret env 0) ?t else ?t) ! 4)" using assms(5) by (simp add: traps_def)
  then have "select_step env l start_table = Inl (Fault OutOfBounds)"
    using assms(4) by (auto simp: select_step_def Let_def intro!: bexI [of _ 4])
  with select_pass_effect(1) [OF s(2), of env] s(3,4) assms(3) have "table_view (select_pass env s) = Inl (Fault OutOfBounds)" by simp
  then have "select_pass env s = Inl (Fault OutOfBounds)" by (cases "select_pass env s"; cases "projl (select_pass env s)") auto
  with s(1) show ?thesis by (simp add: main_def socketSever_Init_select_def)
qed

text \<open>
  C21. The \<^verbatim>\<open>poll\<close> server, through any number of passes: with its sockets (the listener not being descriptor 0) it
  never faults or exits, and its table goes through exactly the steps of the abstract one, whatever the
  entries it does not initialise ask for. A pass for which no memory was allocated does nothing. No client is ever closed.
  A failed read frees the last slot too, which holds the descriptor 0 of static storage. Without a socket
  the server returns -1, without an address it exits with 1. Of the answers it is assumed that an allocated block
  has the size asked for, that \<^verbatim>\<open>accept\<close> returns no descriptor that is open and \<^verbatim>\<open>read\<close> no more bytes than asked for.
\<close>

theorem poll_run_refines:
  assumes "0 < l" "0 \<le> b" "run_documented poll_answers poll_view l envs start_table"
  shows "(\<exists>s. socketSever_Init_poll l b envs = Inr s \<and> table_inv s \<and> listen_socketFd s = l \<and>
      client_fd s = fold (\<lambda>env. poll_step env l) envs start_table \<and> closes (trace s) \<subseteq> {-1}) \<and>
    (l' < 0 \<longrightarrow> table_view (socketSever_Init_poll l' b' envs) = Inl (Return (-1) ())) \<and>
    (0 \<le> l' \<and> b' < 0 \<longrightarrow> table_view (socketSever_Init_poll l' b' envs) = Inl (Exit 1 ()))"
proof -
  obtain s where s: "poll_init l b static_server = Inr s" "table_inv s" "listen_socketFd s = l" "client_fd s = start_table" "closes (trace s) = {}"
    by (rule poll_init_table [OF assms(1,2)])
  note run = pol.run [OF s(2), of envs, unfolded s(3-5) poll_view_run]
  obtain s' where s': "foldE (\<lambda>e s. lift_fault (poll_pass e s)) envs s = (Inr s' :: server halt + server)" "client_fd s' = fold (\<lambda>env. poll_step env l) envs start_table"
    using conjunct1 [OF run [OF assms(3)]] unfolding table_view_Inr by blast
  moreover have "table_inv s'" "listen_socketFd s' = l" "closes (trace s') \<subseteq> {-1}" using conjunct2 [OF run [OF assms(3)]] s'(1) by blast+
  ultimately have "\<exists>s. socketSever_Init_poll l b envs = Inr s \<and> table_inv s \<and> listen_socketFd s = l \<and>
      client_fd s = fold (\<lambda>env. poll_step env l) envs start_table \<and> closes (trace s) \<subseteq> {-1}"
    using s(1) by (simp add: socketSever_Init_poll_def lift_fault_foldE)
  then show ?thesis by (auto simp: socketSever_Init_poll_def poll_init_def Let_def)
qed

section \<open>The servers compared\<close>






section \<open>Examples\<close>


definition poll_answer :: "nat list \<Rightarrow> int \<Rightarrow> int \<Rightarrow> poll_env" where
  "poll_answer slots new r = \<lparr>block = Some (replicate 6 \<lparr>fd = 77, events = 0, revents = 0\<rparr>), poll_rc = 1,
     reported = (\<lambda>i. if i \<in> set slots then 1 else 0), poll_accept_ret = (\<lambda>i. new + int i), poll_accept_addr = (\<lambda>_. zero_addr),
     poll_read_ret = (\<lambda>_. r), poll_read_data = (\<lambda>_. [])\<rparr>"

definition poll_runs_example :: "poll_env list" where
  "poll_runs_example = [poll_answer [0] 4 0, poll_answer [1] 5 (-1)]"


lemma poll_example_steps:
  "poll_step (poll_answer [0] 4 0) 3 start_table = [3, 4, -1, -1, -1, 0]" "poll_step (poll_answer [1] 5 (-1)) 3 [3, 4, -1, -1, -1, 0] = [3, -1, -1, -1, -1, 0]"
  by code_simp+


lemma poll_runs_documented: "run_documented poll_answers poll_view 3 poll_runs_example start_table"
  by (simp add: poll_runs_example_def poll_view_def poll_example_steps)
    (auto simp: poll_answers_def fresh_def poll_answer_def BUFFER_SIZE_def start_table_def)



theorem main_first_pass_witness: "main 3 0 [select_answer None [3] 4 0] = Inl (Fault OutOfBounds)"
  using main_first_pass [of 3 0 "select_answer None [3] 4 0" "[]"]
  by (simp add: select_answers_def fresh_def select_answer_def BUFFER_SIZE_def start_table_def)

theorem poll_run_refines_witness:
  "\<exists>s. socketSever_Init_poll 3 0 poll_runs_example = Inr s \<and> client_fd s = [3, -1, -1, -1, -1, 0]"
proof -
  have "fold (\<lambda>env. poll_step env 3) poll_runs_example start_table = [3, -1, -1, -1, -1, 0]"
    by (simp add: poll_runs_example_def poll_example_steps del: One_nat_def)
  with poll_run_refines [OF _ _ poll_runs_documented, of 0 0 0] show ?thesis by auto
qed


text \<open>The last slot: a failed read from descriptor 0 makes it free in the \<^verbatim>\<open>poll\<close> server, and a full table then takes a fifth client.\<close>

lemma poll_fifth_client:
  "fold (\<lambda>env. poll_step env 3) [poll_answer [5] 9 (-1), poll_answer [0] 8 0] [3, 4, 5, 6, 7, 0] = [3, 4, 5, 6, 7, 8]"
  by code_simp

end
