(* ===== verification/Tcp_Client.thy ===== *)
theory Tcp_Client
  imports Socket_Base
begin

text \<open>
  The clients of \<^verbatim>\<open>linux_socket_example/client_nonblocking.c\<close>. The state is the descriptor and the
  trace of the calls; of what is printed, the dump lines are kept and the progress messages are not.
  The buffer is declared as \<^verbatim>\<open>rbuf\<close> and used as \<^verbatim>\<open>rbuff\<close>; the model takes them for one array.
\<close>

section \<open>State\<close>

record client =
  sock :: int
  ctrace :: "syscall list"

definition call :: "syscall \<Rightarrow> client \<Rightarrow> client" where
  "call c s = s\<lparr>ctrace := ctrace s @ [c]\<rparr>"

definition peer_addr :: sockaddr_in where
  "peer_addr = \<lparr>sin_family = AF_INET, sin_port = htons 777, s_addr = ipv4 192 168 1 16\<rparr>"

text \<open>The dump loop with its line end; a negative size prints the line end only.\<close>

definition dump_line :: "u8 list \<Rightarrow> int \<Rightarrow> client \<Rightarrow> client result" where
  "dump_line rbuff readSize c =
     bindE (dump_loop (nat readSize) rbuff) (\<lambda>out. Inr (call (Print (out @ [CHR 0x0D, CHR 0x0A])) c))"

section \<open>The blocking client\<close>

type_synonym receipt = "int \<times> u8 list"

definition blocking_connect :: "int \<Rightarrow> int \<Rightarrow> client halt + client" where
  "blocking_connect socket_ret connect_ret =
     (let c = \<lparr>sock = socket_ret, ctrace = [Socket socket_ret]\<rparr> in
      if sock c < 0 then Inl (Return (-1) c)
      else let c = call (Connect (sock c) peer_addr) c in
      if connect_ret \<noteq> 0 then Inl (Return (-1) c)
      else Inr c)"

fun blocking_step :: "receipt \<Rightarrow> client \<Rightarrow> client result" where
  "blocking_step (readSize, data) c =
     (let rbuff = fill_buffer data; c = call (Recv (sock c)) c in
      if readSize = 0 then Inr (call (Close (sock c)) c)
      else if readSize < 0 then Inr c
      else dump_line rbuff readSize c)"

definition client_blocking_init :: "int \<Rightarrow> int \<Rightarrow> receipt list \<Rightarrow> client halt + client" where
  \<comment> \<open>the connection, then as many turns of the loop as there are receipts\<close>
  "client_blocking_init socket_ret connect_ret rs =
     bindE (blocking_connect socket_ret connect_ret) (\<lambda>c. lift_fault (foldE blocking_step rs c))"

section \<open>The non-blocking client\<close>

record connect_env =
  socket_ret :: int
  getfl_ret :: int
  setfl_ret :: int
  connect_ret :: int
  in_progress :: bool
  wait_ret :: int
  writable :: bool
  sockopt_ret :: int
  so_error :: int

definition fail_closed :: "client \<Rightarrow> client halt + client" where
  "fail_closed c = Inl (Return (-1) (call (Close (sock c)) c))"

text \<open>
  The branch taken while the connection is in progress: true for the jump to the loop, false for
  falling through to the failure exit behind it, which returns without closing.
\<close>

definition await_connection :: "connect_env \<Rightarrow> client \<Rightarrow> client halt + bool \<times> client" where
  "await_connection e c =
     bindE (lift_fault (FD_SET (sock c) [])) (\<lambda>fdr.
     bindE (lift_fault (FD_SET (sock c) [])) (\<lambda>fdw.
     (let c = call (Select (sock c + 1) (fdr @ fdw)) c in
      if wait_ret e < 0 then bindE (fail_closed c) (\<lambda>c. Inr (False, c))
      else if wait_ret e = 0 then bindE (fail_closed c) (\<lambda>c. Inr (False, c))
      else if wait_ret e = 1 \<and> writable e then Inr (True, c)
      else if wait_ret e = 2 then
        let c = call (GetSockError (sock c)) c in
        if sockopt_ret e = -1 then bindE (fail_closed c) (\<lambda>c. Inr (False, c))
        else if so_error e \<noteq> 0 then bindE (fail_closed c) (\<lambda>c. Inr (False, c))
        else Inr (False, c)
      else Inr (False, c))))"

definition nonblock_connect :: "connect_env \<Rightarrow> client halt + client" where
  "nonblock_connect e =
     (let c = \<lparr>sock = socket_ret e, ctrace = [Socket (socket_ret e)]\<rparr> in
      if sock c < 0 then Inl (Return (-1) c)
      else if getfl_ret e < 0 then fail_closed c
      else if setfl_ret e < 0 then fail_closed (call (FcntlNonblock (sock c)) c)
      else let c = call (Connect (sock c) peer_addr) (call (FcntlNonblock (sock c)) c) in
      if connect_ret e \<noteq> 0 then
        bindE (if in_progress e then await_connection e c else Inr (False, c)) (\<lambda>(success, c).
          if success then Inr c else Inl (Return (-1) c))
      else Inr c)"

type_synonym turn = "int \<times> bool \<times> receipt"

fun nonblock_step :: "turn \<Rightarrow> client \<Rightarrow> client halt + client" where
  "nonblock_step (rc, readable, readSize, data) c =
     bindE (lift_fault (FD_SET (sock c) [])) (\<lambda>fdr.
      let c = call (Select (sock c + 1) fdr) c in
      if rc < 0 then Inl (Exit (-1) (call (Close (sock c)) c))
      else if rc = 1 \<and> readable then
        let rbuff = fill_buffer data; c = call (Recv (sock c)) c in lift_fault (dump_line rbuff readSize c)
      else Inr c)"

definition client_nonblock_init :: "connect_env \<Rightarrow> turn list \<Rightarrow> client halt + client" where
  \<comment> \<open>the connection, then as many turns of the loop as there are answers\<close>
  "client_nonblock_init e turns = bindE (nonblock_connect e) (foldE nonblock_step turns)"

section \<open>The blocking loop\<close>

lemma call_simps [simp]: "sock (call x c) = sock c" "ctrace (call x c) = ctrace c @ [x]"
  by (simp_all add: call_def)

definition dump_text :: "int \<Rightarrow> u8 list \<Rightarrow> string" where
  "dump_text n data = concat (map (\<lambda>b. hex2 b @ '' '') (take (nat n) (fill_buffer data))) @ [CHR 0x0D, CHR 0x0A]"

fun blocking_calls :: "int \<Rightarrow> receipt \<Rightarrow> syscall list" where
  "blocking_calls fd (n, data) = Recv fd # (if n = 0 then [Close fd] else if n < 0 then [] else [Print (dump_text n data)])"

lemma dump_line_ok: "n \<le> int BUFFER_SIZE \<Longrightarrow> dump_line (fill_buffer data) n c = Inr (call (Print (dump_text n data)) c)"
  by (simp add: dump_line_def dump_loop_eq dump_text_def nat_le_iff)

lemma blocking_loop:
  assumes "\<forall>(n, data) \<in> set rs. n \<le> int BUFFER_SIZE"
  shows "foldE blocking_step rs c = Inr (c\<lparr>ctrace := ctrace c @ concat (map (blocking_calls (sock c)) rs)\<rparr>)"
  using assms
proof (induction rs arbitrary: c)
  case Nil
  then show ?case by simp
next
  case (Cons r rs)
  obtain n data where r: "r = (n, data)" by (cases r)
  have "n \<le> int BUFFER_SIZE" using Cons.prems r by simp
  then have "blocking_step r c = Inr (c\<lparr>ctrace := ctrace c @ blocking_calls (sock c) r\<rparr>)"
    by (simp add: r dump_line_ok Let_def call_def)
  with Cons show ?case by simp
qed

text \<open>
  C30. The blocking client: it serves exactly when the socket and the connection succeed, and then it
  never stops. Every receipt is one \<^verbatim>\<open>recv\<close> followed by its dump; the end of the stream closes the
  descriptor, and the next turn reads from it all the same, so every further end of stream closes it
  once more. A failed connection returns -1 with the socket left open.
\<close>

theorem client_blocking_run:
  assumes "\<forall>(n, data) \<in> set rs. n \<le> int BUFFER_SIZE"
  shows "client_blocking_init fd rc rs =
    (if fd < 0 then Inl (Return (-1) \<lparr>sock = fd, ctrace = [Socket fd]\<rparr>)
     else if rc \<noteq> 0 then Inl (Return (-1) \<lparr>sock = fd, ctrace = [Socket fd, Connect fd peer_addr]\<rparr>)
     else Inr \<lparr>sock = fd, ctrace = [Socket fd, Connect fd peer_addr] @ concat (map (blocking_calls fd) rs)\<rparr>)"
  using blocking_loop [OF assms] by (simp add: client_blocking_init_def blocking_connect_def Let_def call_def)

theorem client_blocking_run_witness:
  "client_blocking_init 3 0 [(2, [0xAB, 0x01]), (0, []), (0, [])] =
     Inr \<lparr>sock = 3, ctrace = [Socket 3, Connect 3 peer_addr, Recv 3, Print (dump_text 2 [0xAB, 0x01]),
       Recv 3, Close 3, Recv 3, Close 3]\<rparr>"
  using client_blocking_run [of "[(2, [0xAB, 0x01]), (0, []), (0, [])]" 3 0] by (simp add: BUFFER_SIZE_def)

section \<open>The non-blocking connection\<close>

definition connected :: "connect_env \<Rightarrow> bool" where
  "connected e \<longleftrightarrow> 0 \<le> socket_ret e \<and> 0 \<le> getfl_ret e \<and> 0 \<le> setfl_ret e \<and>
     (connect_ret e = 0 \<or> in_progress e \<and> wait_ret e = 1 \<and> writable e)"

text \<open>The failures that leave the socket open.\<close>

definition leaks :: "connect_env \<Rightarrow> bool" where
  "leaks e \<longleftrightarrow> 0 \<le> socket_ret e \<and> 0 \<le> getfl_ret e \<and> 0 \<le> setfl_ret e \<and> connect_ret e \<noteq> 0 \<and>
     (\<not> in_progress e \<or> wait_ret e = 1 \<and> \<not> writable e \<or> wait_ret e > 2 \<or>
      wait_ret e = 2 \<and> sockopt_ret e \<noteq> -1 \<and> so_error e = 0)"

text \<open>
  C31. The non-blocking connection, on every branch: the client reaches its loop exactly when the
  connection is reported established, with the socket open; otherwise it returns -1, and the socket
  has been closed unless it was never opened or the failure is one of \<open>leaks\<close>. Among those is a
  connection that is up with data already waiting (readable and writable, no pending error), which
  is treated as a failure. A descriptor too large for a descriptor set is written outside it while
  the connection is in progress.
\<close>

theorem nonblock_connect_exact:
  "case nonblock_connect e of
     Inr c \<Rightarrow> connected e \<and> sock c = socket_ret e \<and> Close (sock c) \<notin> set (ctrace c)
   | Inl (Return r c) \<Rightarrow> \<not> connected e \<and> r = -1 \<and>
       (Close (sock c) \<in> set (ctrace c) \<longleftrightarrow> 0 \<le> socket_ret e \<and> \<not> leaks e)
   | Inl (Fault f) \<Rightarrow> f = OutOfBounds \<and> FD_SETSIZE \<le> socket_ret e \<and> connect_ret e \<noteq> 0 \<and> in_progress e
   | Inl (Exit _ _) \<Rightarrow> False"
  by (auto simp: nonblock_connect_def await_connection_def fail_closed_def connected_def leaks_def FD_SET_def Let_def)

section \<open>The non-blocking loop\<close>

lemma nonblock_step_cases:
  assumes "n \<le> int BUFFER_SIZE" "0 \<le> sock c" "sock c < FD_SETSIZE"
  shows "nonblock_step (rc, rd, n, data) c =
    (if rc < 0 then Inl (Exit (-1) (c\<lparr>ctrace := ctrace c @ [Select (sock c + 1) [sock c], Close (sock c)]\<rparr>))
     else Inr (c\<lparr>ctrace := ctrace c @ Select (sock c + 1) [sock c] #
       (if rc = 1 \<and> rd then [Recv (sock c), Print (dump_text n data)] else [])\<rparr>))"
  using assms by (simp add: dump_line_ok FD_SET_def Let_def call_def)

definition turns_ok :: "turn list \<Rightarrow> bool" where
  "turns_ok ts \<longleftrightarrow> (\<forall>(rc, rd, n, data) \<in> set ts. n \<le> int BUFFER_SIZE)"

fun serve_calls :: "int \<Rightarrow> turn \<Rightarrow> syscall list" where
  "serve_calls fd (rc, rd, n, data) = Select (fd + 1) [fd] # (if rc = 1 \<and> rd then [Recv fd, Print (dump_text n data)] else [])"

text \<open>
  C32. On a socket whose descriptor fits a descriptor set, the loop of the non-blocking client stops only when \<^verbatim>\<open>select\<close> fails, and then it closes the
  socket once and exits with -1. Until then every readable turn is one \<^verbatim>\<open>recv\<close> and its dump; the end
  of the stream (a size of 0) is dumped as an empty line and the loop goes on.
\<close>

theorem nonblock_loop_exact:
  assumes "turns_ok ts" "0 \<le> sock c" "sock c < FD_SETSIZE"
  shows "foldE nonblock_step ts c =
    (let ok = takeWhile (\<lambda>(rc, _). rc \<ge> 0) ts; tr = ctrace c @ concat (map (serve_calls (sock c)) ok) in
     if length ok = length ts then Inr (c\<lparr>ctrace := tr\<rparr>)
     else Inl (Exit (-1) (c\<lparr>ctrace := tr @ [Select (sock c + 1) [sock c], Close (sock c)]\<rparr>)))"
  using assms
proof (induction ts arbitrary: c)
  case Nil
  then show ?case by simp
next
  case (Cons t ts)
  obtain rc rd n data where t: "t = (rc, rd, n, data)" by (cases t) auto
  have ok: "n \<le> int BUFFER_SIZE" "turns_ok ts" using Cons.prems t by (auto simp: turns_ok_def)
  with Cons show ?case
    unfolding t foldE.simps nonblock_step_cases [OF ok(1) Cons.prems(2,3)] by (simp add: Let_def)
qed

theorem nonblock_loop_exact_witness:
  "foldE nonblock_step [(1, True, 0, []), (0, False, 0, []), (-1, False, 0, [])] \<lparr>sock = 3, ctrace = []\<rparr> =
     Inl (Exit (-1) \<lparr>sock = 3, ctrace = [Select 4 [3], Recv 3, Print (dump_text 0 []), Select 4 [3], Select 4 [3], Close 3]\<rparr>)"
proof -
  have "turns_ok [(1, True, 0, []), (0, False, 0, []), (-1, False, 0, [])]" by (simp add: turns_ok_def)
  from nonblock_loop_exact [OF this, of "\<lparr>sock = 3, ctrace = []\<rparr>"] show ?thesis by (simp add: FD_SETSIZE_def Let_def)
qed

end
