(* ===== verification/Udp_Server.thy ===== *)
theory Udp_Server
  imports Socket_Base
begin

text \<open>
  \<^verbatim>\<open>linux_socket_example/udp_blocking.c\<close>: a UDP server that dumps every datagram and sends it on to a
  fixed peer. The globals are those of the TCP server and the descriptor \<^verbatim>\<open>udpSendfd\<close>.
\<close>

section \<open>State and operations\<close>

record udp_server = server +
  udpSendfd :: int

definition TY_MATTER_UDP_SERVER_PORT :: u16 where
  "TY_MATTER_UDP_SERVER_PORT = 12121"

definition TY_MATTER_UDP_SEND_Z3_PORT :: u16 where
  "TY_MATTER_UDP_SEND_Z3_PORT = 12122"

definition static_udp_server :: udp_server where
  "static_udp_server = server.extend static_server \<lparr>udpSendfd = 0\<rparr>"

definition z3_addr :: sockaddr_in where
  "z3_addr = \<lparr>sin_family = AF_INET, sin_port = htons TY_MATTER_UDP_SEND_Z3_PORT, s_addr = ipv4 192 168 1 16\<rparr>"

definition sendData :: "int \<Rightarrow> u8 list \<Rightarrow> nat \<Rightarrow> udp_server \<Rightarrow> (int \<times> udp_server) result" where
  "sendData socket_ret data len s =
     (let s = emit (Socket socket_ret) (s\<lparr>udpSendfd := socket_ret\<rparr>) in
      if udpSendfd s < 0 then Inr (-1, s)
      else if len \<le> length data then Inr (0, emit (SendTo (listen_socketFd s) (take len data) z3_addr) s)
      else Inl OutOfBounds)"

text \<open>The test of the first byte guards no statement, but it reads the byte.\<close>

definition udp_handleReceiveData :: "int \<Rightarrow> int \<Rightarrow> u8 list \<Rightarrow> nat \<Rightarrow> udp_server \<Rightarrow> udp_server result" where
  "udp_handleReceiveData socket_ret srcFd data len s =
     bindE (dump_loop len data) (\<lambda>out.
     bindE (sendData socket_ret data len (emit (Print (''['' @ out @ '']'' @ [CHR 0x0D, CHR 0x0A])) s)) (\<lambda>(_, s).
     if data = [] then Inl OutOfBounds else Inr s))"

definition udp_init :: "int \<Rightarrow> int \<Rightarrow> udp_server \<Rightarrow> udp_server halt + udp_server" where
  "udp_init socket_ret bind_ret s =
     (let s = emit (Socket socket_ret) (s\<lparr>listen_socketFd := socket_ret\<rparr>) in
      if listen_socketFd s < 0 then Inl (Return (-1) s)
      else let s = emit (SetReuseAddr (listen_socketFd s)) s;
               s = emit (Bind (listen_socketFd s)
                     \<lparr>sin_family = AF_INET, sin_port = htons TY_MATTER_UDP_SERVER_PORT, s_addr = 0\<rparr>) s in
      if bind_ret < 0 then Inl (Exit 1 s)
      else Inr (reset_table s))"

text \<open>A turn of the loop: what \<^verbatim>\<open>recvfrom\<close> returned, the data, and what opening the send socket returns.\<close>

type_synonym datagram = "int \<times> u8 list \<times> int"

fun udp_step :: "datagram \<Rightarrow> udp_server \<Rightarrow> udp_server result" where
  "udp_step (readlength, data, socket_ret) s =
     (let s = emit (RecvFrom (listen_socketFd s)) (s\<lparr>buffer := fill_buffer data\<rparr>) in
      if readlength = 0 then Inr s
      else if readlength < 0 then Inr s
      else udp_handleReceiveData socket_ret (listen_socketFd s) (buffer s) (nat readlength) s)"

definition udp_blocking_sever_Init :: "int \<Rightarrow> int \<Rightarrow> datagram list \<Rightarrow> udp_server halt + udp_server" where
  \<comment> \<open>the set-up, then as many turns of the loop as there are datagrams\<close>
  "udp_blocking_sever_Init socket_ret bind_ret ds =
     bindE (udp_init socket_ret bind_ret static_udp_server) (\<lambda>s. lift_fault (foldE udp_step ds s))"

section \<open>What a run does\<close>

fun udp_calls :: "int \<Rightarrow> datagram \<Rightarrow> syscall list" where
  "udp_calls l (n, data, sk) = RecvFrom l #
     (if n \<le> 0 then [] else [Print (''['' @ dump_bytes (take (nat n) (fill_buffer data)) @ '']'' @ [CHR 0x0D, CHR 0x0A]), Socket sk]
        @ (if sk < 0 then [] else [SendTo l (take (nat n) (fill_buffer data)) z3_addr]))"

definition datagrams_ok :: "datagram list \<Rightarrow> bool" where
  "datagrams_ok ds \<longleftrightarrow> (\<forall>(n, data, sk) \<in> set ds. n \<le> int BUFFER_SIZE \<and> n \<le> int (length data))"

lemma udpSendfd_emit [simp]: "udpSendfd (emit c s) = udpSendfd s"
  by (simp add: emit_def)

lemma udp_step_calls:
  assumes "n \<le> int BUFFER_SIZE"
  shows "\<exists>s'. udp_step (n, data, sk) s = Inr s' \<and> trace s' = trace s @ udp_calls (listen_socketFd s) (n, data, sk)
    \<and> listen_socketFd s' = listen_socketFd s"
proof -
  have "fill_buffer data \<noteq> []" by (simp add: fill_buffer_def BUFFER_SIZE_def)
  with assms show ?thesis
    by (auto simp: Let_def udp_handleReceiveData_def sendData_def dump_loop_eq dump_bytes_def nat_le_iff)
qed

lemma udp_loop_calls:
  assumes "datagrams_ok ds"
  shows "\<exists>s'. foldE udp_step ds s = Inr s' \<and> trace s' = trace s @ concat (map (udp_calls (listen_socketFd s)) ds)"
  using assms
proof (induction ds arbitrary: s)
  case Nil
  then show ?case by simp
next
  case (Cons d ds)
  obtain n data sk where d: "d = (n, data, sk)" by (cases d) auto
  have "n \<le> int BUFFER_SIZE" "datagrams_ok ds" using Cons.prems d by (auto simp: datagrams_ok_def)
  with udp_step_calls [of n data sk s] d obtain s1 where
    "udp_step d s = Inr s1" "trace s1 = trace s @ udp_calls (listen_socketFd s) d" "listen_socketFd s1 = listen_socketFd s" by auto
  with Cons.IH [OF \<open>datagrams_ok ds\<close>, of s1] show ?case by auto
qed

fun sent :: "syscall \<Rightarrow> (int \<times> u8 list \<times> sockaddr_in) list" where
  "sent (SendTo fd d a) = [(fd, d, a)]"
| "sent _ = []"

fun opened :: "syscall \<Rightarrow> int list" where
  "opened (Socket n) = (if n \<ge> 0 then [n] else [])"
| "opened _ = []"

definition relayed :: "datagram list \<Rightarrow> datagram list" where
  "relayed ds = filter (\<lambda>(n, data, sk). 0 < n \<and> 0 \<le> sk) ds"

lemma take_fill_buffer: "n \<le> BUFFER_SIZE \<Longrightarrow> n \<le> length d \<Longrightarrow> take n (fill_buffer d) = take n d"
  by (simp add: fill_buffer_def min_def)

lemma sent_opened_calls:
  assumes "datagrams_ok ds"
  shows "concat (map sent (concat (map (udp_calls l) ds))) = map (\<lambda>(n, data, sk). (l, take (nat n) data, z3_addr)) (relayed ds)"
    and "concat (map opened (concat (map (udp_calls l) ds))) = map (\<lambda>(n, data, sk). sk) (relayed ds)"
  using assms
  by (induction ds) (simp_all add: relayed_def datagrams_ok_def take_fill_buffer nat_le_iff split: prod.splits)

text \<open>
  C33. The relay: a started UDP server passes on to the fixed peer what it received of every non-empty datagram
  (at most the 1024 bytes it asks for), once and in order of arrival, whenever the send socket could be
  opened; empty and failed receptions send nothing, and the loop never ends. Everything is sent from the
  listening socket: the descriptor that each relayed datagram has opened for sending is not used, and never
  closed.
\<close>

theorem udp_relay:
  assumes "0 \<le> l" "0 \<le> b" "datagrams_ok ds"
  shows "\<exists>s. udp_blocking_sever_Init l b ds = Inr s \<and>
    concat (map sent (trace s)) = map (\<lambda>(n, data, sk). (l, take (nat n) data, z3_addr)) (relayed ds) \<and>
    concat (map opened (trace s)) = l # map (\<lambda>(n, data, sk). sk) (relayed ds) \<and> closes (trace s) = {}"
proof -
  let ?bind = "Bind l \<lparr>sin_family = AF_INET, sin_port = htons TY_MATTER_UDP_SERVER_PORT, s_addr = 0\<rparr>"
  obtain s0 where s0: "udp_init l b static_udp_server = Inr s0" "trace s0 = [Socket l, SetReuseAddr l, ?bind]" "listen_socketFd s0 = l"
    using assms(1,2) by (simp add: udp_init_def Let_def reset_table_keeps static_udp_server_def static_server_def server.defs)
  obtain s where s: "foldE udp_step ds s0 = Inr s" "trace s = trace s0 @ concat (map (udp_calls l) ds)"
    using udp_loop_calls [OF assms(3), of s0] s0(3) by auto
  have "Close fd \<notin> set (udp_calls l d)" for fd d by (cases d) auto
  then have "closes (trace s) = {}" using s(2) s0(2) by (auto simp: closes_def)
  with s s0 sent_opened_calls [OF assms(3)] assms(1) show ?thesis by (auto simp: udp_blocking_sever_Init_def)
qed

theorem udp_relay_witness:
  "\<exists>s. udp_blocking_sever_Init 3 0 [(2, [0xAA, 0x01], 4), (0, [], 5), (1, [7], -1), (1, [9], 5)] = Inr s \<and>
    concat (map sent (trace s)) = [(3, [0xAA, 0x01], z3_addr), (3, [9], z3_addr)] \<and>
    concat (map opened (trace s)) = [3, 4, 5] \<and> closes (trace s) = {}"
  using udp_relay [of 3 0 "[(2, [0xAA, 0x01], 4), (0, [], 5), (1, [7], -1), (1, [9], 5)]"]
  by (simp add: datagrams_ok_def relayed_def BUFFER_SIZE_def)

end
