(* ===== verification/Ubox_List.thy ===== *)
theory Ubox_List
  imports Linked_List
begin

text \<open>
  The circular doubly linked lists of libubox (\<^verbatim>\<open>ubus_example/lib/inc/libubox/list.h\<close>) on an explicit
  heap of \<^verbatim>\<open>struct list_head\<close> nodes: a list is a head node linked in a ring with its elements. Every
  access through a null or unallocated pointer is a fault. The iteration macros are loops that may
  not end (the outer \<open>None\<close>).
\<close>

section \<open>Nodes and operations\<close>

type_synonym list_head = links
type_synonym node_heap = "addr \<rightharpoonup> list_head"

definition INIT_LIST_HEAD :: "addr \<Rightarrow> node_heap \<Rightarrow> node_heap result" where
  "INIT_LIST_HEAD list h =
     bindE (modify h list (\<lambda>e. e\<lparr>prev_el := list\<rparr>)) (\<lambda>h. modify h list (\<lambda>e. e\<lparr>next_el := list\<rparr>))"

definition list_empty :: "addr \<Rightarrow> node_heap \<Rightarrow> bool result" where
  "list_empty head h = bindE (load h head) (\<lambda>e. Inr (next_el e = head))"

definition list_is_first :: "addr \<Rightarrow> addr \<Rightarrow> node_heap \<Rightarrow> bool result" where
  "list_is_first list head h = bindE (load h list) (\<lambda>e. Inr (prev_el e = head))"

definition list_is_last :: "addr \<Rightarrow> addr \<Rightarrow> node_heap \<Rightarrow> bool result" where
  "list_is_last list head h = bindE (load h list) (\<lambda>e. Inr (next_el e = head))"

definition list_unlink :: "addr \<Rightarrow> node_heap \<Rightarrow> node_heap result" where
  \<comment> \<open>\<^verbatim>\<open>_list_del\<close>\<close>
  "list_unlink entry h =
     bindE (load h entry) (\<lambda>e.
     bindE (modify h (next_el e) (\<lambda>n. n\<lparr>prev_el := prev_el e\<rparr>)) (\<lambda>h.
     bindE (load h entry) (\<lambda>e.
     modify h (prev_el e) (\<lambda>p. p\<lparr>next_el := next_el e\<rparr>))))"

definition list_del :: "addr \<Rightarrow> node_heap \<Rightarrow> node_heap result" where
  "list_del entry h =
     bindE (list_unlink entry h) (\<lambda>h.
     bindE (modify h entry (\<lambda>e. e\<lparr>prev_el := null\<rparr>)) (\<lambda>h.
     modify h entry (\<lambda>e. e\<lparr>next_el := null\<rparr>)))"

definition list_link :: "addr \<Rightarrow> addr \<Rightarrow> addr \<Rightarrow> node_heap \<Rightarrow> node_heap result" where
  \<comment> \<open>\<^verbatim>\<open>_list_add\<close>\<close>
  "list_link new prev next h =
     bindE (modify h next (\<lambda>e. e\<lparr>prev_el := new\<rparr>)) (\<lambda>h.
     bindE (modify h new (\<lambda>e. e\<lparr>next_el := next\<rparr>)) (\<lambda>h.
     bindE (modify h new (\<lambda>e. e\<lparr>prev_el := prev\<rparr>)) (\<lambda>h.
     modify h prev (\<lambda>e. e\<lparr>next_el := new\<rparr>))))"

definition list_del_init :: "addr \<Rightarrow> node_heap \<Rightarrow> node_heap result" where
  "list_del_init entry h = bindE (list_unlink entry h) (INIT_LIST_HEAD entry)"

definition list_add :: "addr \<Rightarrow> addr \<Rightarrow> node_heap \<Rightarrow> node_heap result" where
  "list_add new head h = bindE (load h head) (\<lambda>e. list_link new head (next_el e) h)"

definition list_add_tail :: "addr \<Rightarrow> addr \<Rightarrow> node_heap \<Rightarrow> node_heap result" where
  "list_add_tail new head h = bindE (load h head) (\<lambda>e. list_link new (prev_el e) head h)"

definition list_move :: "addr \<Rightarrow> addr \<Rightarrow> node_heap \<Rightarrow> node_heap result" where
  "list_move list head h = bindE (list_unlink list h) (list_add list head)"

definition list_move_tail :: "addr \<Rightarrow> addr \<Rightarrow> node_heap \<Rightarrow> node_heap result" where
  "list_move_tail entry head h = bindE (list_unlink entry h) (list_add_tail entry head)"

definition list_splice_between :: "addr \<Rightarrow> addr \<Rightarrow> addr \<Rightarrow> node_heap \<Rightarrow> node_heap result" where
  \<comment> \<open>\<^verbatim>\<open>_list_splice\<close>\<close>
  "list_splice_between list prev next h =
     bindE (list_empty list h) (\<lambda>empty.
     if empty then Inr h
     else bindE (load h list) (\<lambda>e.
       let first = next_el e; last = prev_el e in
       bindE (modify h first (\<lambda>x. x\<lparr>prev_el := prev\<rparr>)) (\<lambda>h.
       bindE (modify h prev (\<lambda>x. x\<lparr>next_el := first\<rparr>)) (\<lambda>h.
       bindE (modify h last (\<lambda>x. x\<lparr>next_el := next\<rparr>)) (\<lambda>h.
       modify h next (\<lambda>x. x\<lparr>prev_el := last\<rparr>))))))"

definition list_splice :: "addr \<Rightarrow> addr \<Rightarrow> node_heap \<Rightarrow> node_heap result" where
  "list_splice list head h = bindE (load h head) (\<lambda>e. list_splice_between list head (next_el e) h)"

definition list_splice_tail :: "addr \<Rightarrow> addr \<Rightarrow> node_heap \<Rightarrow> node_heap result" where
  "list_splice_tail list head h = bindE (load h head) (\<lambda>e. list_splice_between list (prev_el e) head h)"

definition list_splice_init :: "addr \<Rightarrow> addr \<Rightarrow> node_heap \<Rightarrow> node_heap result" where
  "list_splice_init list head h = bindE (list_splice list head h) (INIT_LIST_HEAD list)"

definition list_splice_tail_init :: "addr \<Rightarrow> addr \<Rightarrow> node_heap \<Rightarrow> node_heap result" where
  "list_splice_tail_init list head h = bindE (list_splice_tail list head h) (INIT_LIST_HEAD list)"

definition list_first_entry :: "addr \<Rightarrow> node_heap \<Rightarrow> addr result" where
  "list_first_entry head h = bindE (load h head) (\<lambda>e. Inr (next_el e))"

definition list_last_entry :: "addr \<Rightarrow> node_heap \<Rightarrow> addr result" where
  "list_last_entry head h = bindE (load h head) (\<lambda>e. Inr (prev_el e))"

text \<open>
  The iteration macros with the loop body as an argument, working on a state of its own and the
  heap: the plain ones read the link of the current node after the body ran, the safe ones before.
\<close>

type_synonym 'a loop_body = "addr \<Rightarrow> 'a \<times> node_heap \<Rightarrow> ('a \<times> node_heap) result"

partial_function (option) for_each_loop ::
  "(list_head \<Rightarrow> addr) \<Rightarrow> 'a loop_body \<Rightarrow> addr \<Rightarrow> addr \<Rightarrow> 'a \<times> node_heap \<Rightarrow> ('a \<times> node_heap) result option" where
  "for_each_loop link body head p s =
     (if p = head then Some (Inr s)
      else case bindE (body p s) (\<lambda>s. bindE (load (snd s) p) (\<lambda>e. Inr (link e, s))) of
        Inl f \<Rightarrow> Some (Inl f)
      | Inr (p, s) \<Rightarrow> for_each_loop link body head p s)"

partial_function (option) for_each_safe_loop ::
  "(list_head \<Rightarrow> addr) \<Rightarrow> 'a loop_body \<Rightarrow> addr \<Rightarrow> addr \<Rightarrow> addr \<Rightarrow> 'a \<times> node_heap \<Rightarrow> ('a \<times> node_heap) result option" where
  "for_each_safe_loop link body head p n s =
     (if p = head then Some (Inr s)
      else case bindE (body p s) (\<lambda>s. bindE (load (snd s) n) (\<lambda>e. Inr (link e, s))) of
        Inl f \<Rightarrow> Some (Inl f)
      | Inr (n', s) \<Rightarrow> for_each_safe_loop link body head n n' s)"

definition list_for_each :: "'a loop_body \<Rightarrow> addr \<Rightarrow> 'a \<times> node_heap \<Rightarrow> ('a \<times> node_heap) result option" where
  "list_for_each body head s =
     (case load (snd s) head of Inl f \<Rightarrow> Some (Inl f) | Inr e \<Rightarrow> for_each_loop next_el body head (next_el e) s)"

definition list_for_each_prev :: "'a loop_body \<Rightarrow> addr \<Rightarrow> 'a \<times> node_heap \<Rightarrow> ('a \<times> node_heap) result option" where
  "list_for_each_prev body head s =
     (case load (snd s) head of Inl f \<Rightarrow> Some (Inl f) | Inr e \<Rightarrow> for_each_loop prev_el body head (prev_el e) s)"

definition list_for_each_safe :: "'a loop_body \<Rightarrow> addr \<Rightarrow> 'a \<times> node_heap \<Rightarrow> ('a \<times> node_heap) result option" where
  "list_for_each_safe body head s =
     (case bindE (load (snd s) head) (\<lambda>e. bindE (load (snd s) (next_el e)) (\<lambda>f. Inr (next_el e, next_el f))) of
        Inl f \<Rightarrow> Some (Inl f)
      | Inr (p, n) \<Rightarrow> for_each_safe_loop next_el body head p n s)"

definition list_for_each_prev_safe :: "'a loop_body \<Rightarrow> addr \<Rightarrow> 'a \<times> node_heap \<Rightarrow> ('a \<times> node_heap) result option" where
  "list_for_each_prev_safe body head s =
     (case bindE (load (snd s) head) (\<lambda>e. bindE (load (snd s) (prev_el e)) (\<lambda>f. Inr (prev_el e, prev_el f))) of
        Inl f \<Rightarrow> Some (Inl f)
      | Inr (p, n) \<Rightarrow> for_each_safe_loop prev_el body head p n s)"

section \<open>Circles\<close>

text \<open>A circle is a segment closed on itself; it may be read from any of its nodes.\<close>

definition circle :: "node_heap \<Rightarrow> addr list \<Rightarrow> bool" where
  "circle h xs \<longleftrightarrow> seg h (last_of xs null) xs (first_of xs null)"

lemma last_of_nonempty: "xs \<noteq> [] \<Longrightarrow> last_of xs d = last_of xs d'"
  by (simp add: last_of_def)

lemma first_of_nonempty: "xs \<noteq> [] \<Longrightarrow> first_of xs d = first_of xs d'"
  by (cases xs) simp_all

lemma circle_rotate: "circle h (xs @ ys) = circle h (ys @ xs)"
proof (cases "xs = [] \<or> ys = []")
  case False
  then show ?thesis
    using last_of_nonempty [of ys] last_of_nonempty [of xs] first_of_nonempty [of xs] first_of_nonempty [of ys]
    by (simp add: circle_def seg_append) metis
qed auto

text \<open>\<open>list_rep h l ps\<close>: the list with head \<open>l\<close> holds the nodes \<open>ps\<close>, in this order.\<close>

definition list_rep :: "node_heap \<Rightarrow> addr \<Rightarrow> addr list \<Rightarrow> bool" where
  "list_rep h l ps \<longleftrightarrow> distinct (l # ps) \<and> null \<notin> set (l # ps) \<and> circle h (l # ps)"

lemma list_rep_head:
  assumes "list_rep h l ps"
  obtains e where "l \<noteq> null" "h l = Some e" "next_el e = first_of ps l" "prev_el e = last_of ps l" "load h l = Inr e"
  using assms by (auto simp: list_rep_def circle_def load_valid split: option.splits)

lemma circle_alloc: "circle h xs \<Longrightarrow> x \<in> set xs \<Longrightarrow> \<exists>e. h x = Some e"
  by (auto simp: circle_def dest: seg_alloc)

lemma circle_frame: "p \<notin> set xs \<Longrightarrow> circle (h(p := v)) xs = circle h xs"
  by (simp add: circle_def)

section \<open>What the link operations do to a circle\<close>

text \<open>\<open>frame xs h h'\<close>: the same nodes are allocated and those outside \<open>xs\<close> are untouched.\<close>

definition frame :: "addr list \<Rightarrow> node_heap \<Rightarrow> node_heap \<Rightarrow> bool" where
  "frame xs h h' \<longleftrightarrow> dom h' = dom h \<and> (\<forall>q. q \<notin> set xs \<longrightarrow> h' q = h q)"

lemma frameD: "frame xs h h' \<Longrightarrow> q \<notin> set xs \<Longrightarrow> h' q = h q" "frame xs h h' \<Longrightarrow> dom h' = dom h"
  by (simp_all add: frame_def)

lemma frame_trans: "frame xs h h' \<Longrightarrow> frame ys h' h'' \<Longrightarrow> set xs \<subseteq> set zs \<Longrightarrow> set ys \<subseteq> set zs \<Longrightarrow> frame zs h h''"
  by (simp add: frame_def subset_iff) metis

lemma seg_cong: "(\<And>q. q \<in> set xs \<Longrightarrow> h' q = h q) \<Longrightarrow> seg h' pr xs nx = seg h pr xs nx"
  by (induction xs arbitrary: pr) (auto split: option.splits)

lemma circle_cong: "(\<And>q. q \<in> set xs \<Longrightarrow> h' q = h q) \<Longrightarrow> circle h' xs = circle h xs"
  using seg_cong [of xs h' h] by (simp add: circle_def)

lemma seg_framed: "frame ys h h' \<Longrightarrow> set xs \<inter> set ys = {} \<Longrightarrow> seg h pr xs nx \<Longrightarrow> seg h' pr xs nx"
  by (metis frameD(1) disjoint_iff seg_cong)

lemma seg_set_prev:
  assumes "seg h pr xs nx" "xs \<noteq> []" "distinct xs" "null \<notin> set xs"
  shows "\<exists>h'. modify h (hd xs) (\<lambda>e. e\<lparr>prev_el := pr'\<rparr>) = Inr h' \<and> seg h' pr' xs nx \<and> frame xs h h'"
proof -
  obtain p ps e where "xs = p # ps" "h p = Some e" using assms by (cases xs) (auto split: option.splits)
  with assms show ?thesis by (intro exI [of _ "h(p \<mapsto> e\<lparr>prev_el := pr'\<rparr>)"]) (auto simp: frame_def fault_simps)
qed

lemma seg_set_next:
  assumes "seg h pr xs nx" "xs \<noteq> []" "distinct xs" "null \<notin> set xs"
  shows "\<exists>h'. modify h (last xs) (\<lambda>e. e\<lparr>next_el := nx'\<rparr>) = Inr h' \<and> seg h' pr xs nx' \<and> frame xs h h'"
proof -
  obtain p ps e where "xs = ps @ [p]" "h p = Some e" using assms by (cases xs rule: rev_cases) (auto simp: seg_append split: option.splits)
  with assms show ?thesis by (intro exI [of _ "h(p \<mapsto> e\<lparr>next_el := nx'\<rparr>)"]) (auto simp: frame_def fault_simps seg_append)
qed

text \<open>A list of nodes with its first and last element in view.\<close>

lemma two_ends:
  assumes "zs \<noteq> []"
  obtains (one) z where "zs = [z]" | (more) z ms y where "zs = z # ms @ [y]"
  using assms by (metis append_Nil neq_Nil_conv rev_exhaust append_Cons)

lemma circle_ends:
  "circle h (z # ms @ [y]) \<longleftrightarrow> (\<exists>e f. h z = Some e \<and> prev_el e = y \<and> next_el e = first_of ms y \<and>
     seg h z ms y \<and> h y = Some f \<and> prev_el f = last_of ms z \<and> next_el f = z)"
  by (auto simp: circle_def seg_append split: option.splits)

lemma circle_one: "circle h [z] \<longleftrightarrow> (\<exists>e. h z = Some e \<and> prev_el e = z \<and> next_el e = z)"
  by (auto simp: circle_def split: option.splits)

lemma list_link_circle:
  assumes "circle h zs" "zs \<noteq> []" "distinct (new # zs)" "null \<notin> set (new # zs)" "new \<in> dom h"
  shows "\<exists>h'. list_link new (last zs) (hd zs) h = Inr h' \<and> circle h' (new # zs) \<and> frame (new # zs) h h'"
proof -
  obtain e0 where e0: "h new = Some e0" using assms(5) by blast
  from assms(2) show ?thesis
  proof (cases rule: two_ends)
    case (one z)
    with assms e0 show ?thesis
      by (auto simp: list_link_def fault_simps circle_one circle_ends [of _ new "[]" z, simplified] frame_def)
  next
    case (more z ms y)
    with assms e0 show ?thesis
      by (auto simp: list_link_def fault_simps circle_ends circle_ends [of _ new "z # ms" y, simplified] frame_def)
  qed
qed

lemma list_unlink_circle:
  assumes "circle h (p # zs)" "zs \<noteq> []" "distinct (p # zs)" "null \<notin> set (p # zs)"
  shows "\<exists>h'. list_unlink p h = Inr h' \<and> circle h' zs \<and> frame zs h h'"
  using assms(2)
proof (cases rule: two_ends)
  case (one z)
  with assms show ?thesis
    by (auto simp: list_unlink_def fault_simps circle_one circle_ends [of _ p "[]" z, simplified] frame_def)
next
  case (more z ms y)
  with assms show ?thesis
    by (auto simp: list_unlink_def fault_simps circle_ends circle_ends [of _ p "z # ms" y, simplified] frame_def split: option.splits)
qed

lemma list_unlink_single:
  assumes "circle h [p]" "p \<noteq> null"
  shows "list_unlink p h = Inr h"
proof -
  from assms(1) obtain e where e: "h p = Some e" "prev_el e = p" "next_el e = p" by (auto simp: circle_one)
  then have "e\<lparr>prev_el := p\<rparr> = e" "e\<lparr>next_el := p\<rparr> = e" by (cases e; simp)+
  with e assms(2) show ?thesis by (simp add: list_unlink_def fault_simps fun_upd_idem)
qed

lemma circle_hd_last: "xs \<noteq> [] \<Longrightarrow> circle h xs = seg h (last xs) xs (hd xs)"
  by (cases xs) (auto simp: circle_def last_of_def)

lemma list_splice_circle:
  assumes L: "circle h (L # qs)" "qs \<noteq> []" and zs: "circle h zs" "zs \<noteq> []"
    and dist: "distinct (L # qs @ zs)" "null \<notin> set (L # qs @ zs)"
  shows "\<exists>h'. list_splice_between L (last zs) (hd zs) h = Inr h' \<and> circle h' (qs @ zs) \<and> frame (qs @ zs) h h'"
proof -
  have disj: "set qs \<inter> set zs = {}" "set zs \<inter> set qs = {}" and dq: "distinct qs" "null \<notin> set qs" and dz: "distinct zs" "null \<notin> set zs"
    using dist by auto
  obtain e where e: "load h L = Inr e" "next_el e = hd qs" "prev_el e = last qs" "next_el e \<noteq> L" and q0: "seg h L qs L"
    using L dist by (cases qs) (auto simp: circle_def load_valid last_of_def split: option.splits)
  obtain h1 where h1: "modify h (hd qs) (\<lambda>x. x\<lparr>prev_el := last zs\<rparr>) = Inr h1" "seg h1 (last zs) qs L" "frame qs h h1"
    using seg_set_prev [OF q0 L(2) dq] by blast
  have z1: "seg h1 (last zs) zs (hd zs)" using seg_framed [OF h1(3) disj(2)] zs by (simp add: circle_hd_last)
  obtain h2 where h2: "modify h1 (last zs) (\<lambda>x. x\<lparr>next_el := hd qs\<rparr>) = Inr h2" "seg h2 (last zs) zs (hd qs)" "frame zs h1 h2"
    using seg_set_next [OF z1 zs(2) dz] by blast
  obtain h3 where h3: "modify h2 (last qs) (\<lambda>x. x\<lparr>next_el := hd zs\<rparr>) = Inr h3" "seg h3 (last zs) qs (hd zs)" "frame qs h2 h3"
    using seg_set_next [OF seg_framed [OF h2(3) disj(1) h1(2)] L(2) dq] by blast
  obtain h4 where h4: "modify h3 (hd zs) (\<lambda>x. x\<lparr>prev_el := last qs\<rparr>) = Inr h4" "seg h4 (last qs) zs (hd qs)" "frame zs h3 h4"
    using seg_set_prev [OF seg_framed [OF h3(3) disj(2) h2(2)] zs(2) dz] by blast
  have "seg h4 (last zs) qs (hd zs)" using seg_framed [OF h4(3) disj(1) h3(2)] .
  then have "circle h4 (qs @ zs)"
    using h4(2) L(2) zs(2) by (cases zs) (auto simp: circle_hd_last seg_append last_of_def)
  moreover have "frame (qs @ zs) h h4"
    using frame_trans [OF h1(3) h2(3), of "qs @ zs"] frame_trans [OF h3(3) h4(3), of "qs @ zs"] frame_trans [of "qs @ zs" h h2 "qs @ zs" h4] by simp
  moreover have "list_splice_between L (last zs) (hd zs) h = Inr h4"
    using e h1(1) h2(1) h3(1) h4(1) by (simp add: list_splice_between_def list_empty_def Let_def)
  ultimately show ?thesis by blast
qed

section \<open>The operations on lists\<close>

lemma list_rep_add:
  assumes "list_rep h l ps" "p \<notin> set (l # ps)" "p \<noteq> null" "p \<in> dom h"
  shows "\<exists>h'. list_add p l h = Inr h' \<and> list_rep h' l (p # ps) \<and> frame (p # l # ps) h h'"
proof -
  obtain e where e: "load h l = Inr e" "next_el e = first_of ps l" using assms(1) by (rule list_rep_head)
  have "circle h (ps @ [l])" "distinct (p # ps @ [l])" "null \<notin> set (p # ps @ [l])"
    using assms circle_rotate [of h "[l]" ps] by (auto simp: list_rep_def)
  from list_link_circle [OF this(1) _ this(2,3) assms(4)] obtain h' where
    "list_link p l (first_of ps l) h = Inr h'" "circle h' ((p # ps) @ [l])" "frame (p # ps @ [l]) h h'"
    by (cases ps) auto
  with e assms circle_rotate [of h' "p # ps" "[l]"] show ?thesis
    by (auto simp: list_add_def list_rep_def frame_def)
qed

lemma list_rep_add_tail:
  assumes "list_rep h l ps" "p \<notin> set (l # ps)" "p \<noteq> null" "p \<in> dom h"
  shows "\<exists>h'. list_add_tail p l h = Inr h' \<and> list_rep h' l (ps @ [p]) \<and> frame (p # l # ps) h h'"
proof -
  obtain e where e: "load h l = Inr e" "prev_el e = last_of ps l" using assms(1) by (rule list_rep_head)
  have "circle h (l # ps)" "distinct (p # l # ps)" "null \<notin> set (p # l # ps)" using assms by (auto simp: list_rep_def)
  from list_link_circle [OF this(1) _ this(2,3) assms(4)] obtain h' where
    "list_link p (last_of ps l) l h = Inr h'" "circle h' ([p] @ l # ps)" "frame (p # l # ps) h h'"
    by (auto simp: last_of_def split: if_splits)
  with e assms circle_rotate [of h' "[p]" "l # ps"] show ?thesis
    by (auto simp: list_add_tail_def list_rep_def)
qed

lemma list_rep_unlink:
  assumes "list_rep h l (xs @ p # ys)"
  shows "\<exists>h'. list_unlink p h = Inr h' \<and> list_rep h' l (xs @ ys) \<and> frame (l # xs @ ys) h h' \<and> p \<in> dom h'"
proof -
  have c: "circle h (p # ys @ l # xs)" "distinct (p # ys @ l # xs)" "null \<notin> set (p # ys @ l # xs)"
    using assms circle_rotate [of h "l # xs" "p # ys"] by (auto simp: list_rep_def)
  from list_unlink_circle [OF c(1) _ c(2,3)] obtain h' where
    h': "list_unlink p h = Inr h'" "circle h' (ys @ l # xs)" "frame (ys @ l # xs) h h'" by auto
  moreover have "p \<in> dom h'" using circle_alloc [OF c(1), of p] frameD(2) [OF h'(3)] by auto
  ultimately show ?thesis
    using assms circle_rotate [of h' ys "l # xs"] by (auto simp: list_rep_def frame_def)
qed

lemma list_rep_outside: "list_rep h l ps \<Longrightarrow> p \<notin> set (l # ps) \<Longrightarrow> list_rep (h(p := v)) l ps"
  by (auto simp: list_rep_def circle_frame)

lemma list_rep_del:
  assumes "list_rep h l (xs @ p # ys)"
  shows "\<exists>h'. list_del p h = Inr h' \<and> list_rep h' l (xs @ ys) \<and> frame (p # l # xs @ ys) h h' \<and>
    h' p = Some \<lparr>next_el = null, prev_el = null\<rparr>"
proof -
  obtain h1 where h1: "list_unlink p h = Inr h1" "list_rep h1 l (xs @ ys)" "frame (l # xs @ ys) h h1" "p \<in> dom h1"
    using list_rep_unlink [OF assms] by blast
  have "p \<noteq> null" "p \<notin> set (l # xs @ ys)" using assms by (auto simp: list_rep_def)
  moreover from h1(4) obtain e where "h1 p = Some e" by blast
  ultimately show ?thesis
    using h1 list_rep_outside [OF h1(2), of p] by (cases e) (auto simp: list_del_def fault_simps frame_def)
qed

lemma list_rep_del_init:
  assumes "list_rep h l (xs @ p # ys)"
  shows "\<exists>h'. list_del_init p h = Inr h' \<and> list_rep h' l (xs @ ys) \<and> list_rep h' p [] \<and> frame (p # l # xs @ ys) h h'"
proof -
  obtain h1 where h1: "list_unlink p h = Inr h1" "list_rep h1 l (xs @ ys)" "frame (l # xs @ ys) h h1" "p \<in> dom h1"
    using list_rep_unlink [OF assms] by blast
  have "p \<noteq> null" "p \<notin> set (l # xs @ ys)" using assms by (auto simp: list_rep_def)
  moreover from h1(4) obtain e where "h1 p = Some e" by blast
  ultimately show ?thesis
    using h1 list_rep_outside [OF h1(2), of p]
    by (cases e) (auto simp: list_del_init_def INIT_LIST_HEAD_def fault_simps frame_def list_rep_def circle_one)
qed

text \<open>Histories of a list, with what each operation does to the abstract sequence.\<close>

datatype list_op = Add addr | AddTail addr | Del addr | DelInit addr | Move addr | MoveTail addr

fun list_exec :: "addr \<Rightarrow> list_op \<Rightarrow> node_heap \<Rightarrow> node_heap result" where
  "list_exec l (Add p) = list_add p l"
| "list_exec l (AddTail p) = list_add_tail p l"
| "list_exec l (Del p) = list_del p"
| "list_exec l (DelInit p) = list_del_init p"
| "list_exec l (Move p) = list_move p l"
| "list_exec l (MoveTail p) = list_move_tail p l"

fun list_spec :: "list_op \<Rightarrow> addr list \<Rightarrow> addr list" where
  "list_spec (Add p) ps = p # ps"
| "list_spec (AddTail p) ps = ps @ [p]"
| "list_spec (Del p) ps = remove1 p ps"
| "list_spec (DelInit p) ps = remove1 p ps"
| "list_spec (Move p) ps = p # remove1 p ps"
| "list_spec (MoveTail p) ps = remove1 p ps @ [p]"

text \<open>What the caller has to respect: a node is added only when it is not in the list, and deleted or moved only when it is.\<close>

fun list_pre :: "addr set \<Rightarrow> addr \<Rightarrow> list_op \<Rightarrow> addr list \<Rightarrow> bool" where
  "list_pre A l (Add p) ps \<longleftrightarrow> p \<in> A \<and> p \<noteq> null \<and> p \<notin> set (l # ps)"
| "list_pre A l (AddTail p) ps \<longleftrightarrow> p \<in> A \<and> p \<noteq> null \<and> p \<notin> set (l # ps)"
| "list_pre A l (Del p) ps \<longleftrightarrow> p \<in> set ps"
| "list_pre A l (DelInit p) ps \<longleftrightarrow> p \<in> set ps"
| "list_pre A l (Move p) ps \<longleftrightarrow> p \<in> set ps"
| "list_pre A l (MoveTail p) ps \<longleftrightarrow> p \<in> set ps"

primrec list_pres :: "addr set \<Rightarrow> addr \<Rightarrow> list_op list \<Rightarrow> addr list \<Rightarrow> bool" where
  "list_pres A l [] ps \<longleftrightarrow> True"
| "list_pres A l (c # cs) ps \<longleftrightarrow> list_pre A l c ps \<and> list_pres A l cs (list_spec c ps)"

lemma list_exec_rep:
  assumes rep: "list_rep h l ps" and pre: "list_pre (dom h) l c ps"
  shows "\<exists>h'. list_exec l c h = Inr h' \<and> list_rep h' l (list_spec c ps) \<and> dom h' = dom h"
proof -
  have split: "\<exists>xs ys. ps = xs @ p # ys \<and> remove1 p ps = xs @ ys \<and> p \<notin> set (l # xs @ ys) \<and> p \<noteq> null" if "p \<in> set ps" for p
  proof -
    from that obtain xs ys where "ps = xs @ p # ys" "p \<notin> set xs" by (metis split_list_first)
    with rep show ?thesis by (auto simp: list_rep_def remove1_append)
  qed
  show ?thesis
  proof (cases c)
    case (Add p)
    with rep pre list_rep_add [OF rep] show ?thesis by (fastforce simp: frame_def)
  next
    case (AddTail p)
    with rep pre list_rep_add_tail [OF rep] show ?thesis by (fastforce simp: frame_def)
  next
    case (Del p)
    with pre split obtain xs ys where "ps = xs @ p # ys" "remove1 p ps = xs @ ys" by fastforce
    with Del rep list_rep_del [of h l xs p ys] show ?thesis by (auto simp: frame_def)
  next
    case (DelInit p)
    with pre split obtain xs ys where "ps = xs @ p # ys" "remove1 p ps = xs @ ys" by fastforce
    with DelInit rep list_rep_del_init [of h l xs p ys] show ?thesis by (auto simp: frame_def)
  next
    case (Move p)
    with pre split obtain xs ys where ps: "ps = xs @ p # ys" "remove1 p ps = xs @ ys" "p \<notin> set (l # xs @ ys)" "p \<noteq> null" by fastforce
    with rep list_rep_unlink [of h l xs p ys] obtain h1 where
      "list_unlink p h = Inr h1" "list_rep h1 l (xs @ ys)" "dom h1 = dom h" "p \<in> dom h1" by (metis frameD(2))
    with list_rep_add [of h1 l "xs @ ys" p] ps Move show ?thesis by (auto simp: list_move_def frame_def)
  next
    case (MoveTail p)
    with pre split obtain xs ys where ps: "ps = xs @ p # ys" "remove1 p ps = xs @ ys" "p \<notin> set (l # xs @ ys)" "p \<noteq> null" by fastforce
    with rep list_rep_unlink [of h l xs p ys] obtain h1 where
      "list_unlink p h = Inr h1" "list_rep h1 l (xs @ ys)" "dom h1 = dom h" "p \<in> dom h1" by (metis frameD(2))
    with list_rep_add_tail [of h1 l "xs @ ys" p] ps MoveTail show ?thesis by (auto simp: list_move_tail_def frame_def)
  qed
qed

text \<open>
  C10. Refinement: any history of additions, deletions and moves that respects the callers' obligations
  runs without a fault on the circular list and leaves exactly the sequence that the same history
  leaves on an abstract list.
\<close>

theorem list_ops_refine:
  assumes "list_rep h l ps" "list_pres (dom h) l cs ps"
  shows "\<exists>h'. foldE (list_exec l) cs h = Inr h' \<and> list_rep h' l (fold list_spec cs ps)"
  using assms
proof (induction cs arbitrary: h ps)
  case Nil
  then show ?case by simp
next
  case (Cons c cs)
  then obtain h1 where "list_exec l c h = Inr h1" "list_rep h1 l (list_spec c ps)" "dom h1 = dom h"
    using list_exec_rep by (metis list_pres.simps(2))
  with Cons show ?case by simp
qed

section \<open>Splicing\<close>

lemma INIT_LIST_HEAD_rep:
  assumes "L \<noteq> null" "h L = Some e"
  shows "\<exists>h'. INIT_LIST_HEAD L h = Inr h' \<and> list_rep h' L [] \<and> frame [L] h h'"
  using assms by (cases e) (auto simp: INIT_LIST_HEAD_def fault_simps list_rep_def circle_one frame_def)

lemma list_rep_framed: "list_rep h l ps \<Longrightarrow> frame xs h h' \<Longrightarrow> set xs \<inter> set (l # ps) = {} \<Longrightarrow> list_rep h' l ps"
  unfolding list_rep_def by (metis circle_cong disjoint_iff frameD(1))

lemma splice_between_rep:
  assumes L: "list_rep h L qs" and zs: "circle h zs" "zs \<noteq> []" "distinct (L # qs @ zs)" "null \<notin> set zs"
  shows "\<exists>h'. list_splice_between L (last zs) (hd zs) h = Inr h' \<and> circle h' (qs @ zs) \<and> frame (qs @ zs) h h'"
proof (cases "qs = []")
  case True
  obtain e where "load h L = Inr e" "next_el e = L" using L True by (metis list_rep_head first_of_simps(1))
  with True zs show ?thesis by (simp add: list_splice_between_def list_empty_def frame_def)
next
  case False
  with L zs list_splice_circle [of h L qs zs] show ?thesis by (simp add: list_rep_def)
qed

lemma splice_rep:
  assumes l: "list_rep h l ps" and L: "list_rep h L qs" and disj: "set (l # ps) \<inter> set (L # qs) = {}"
  shows "\<exists>h'. list_splice L l h = Inr h' \<and> list_rep h' l (qs @ ps) \<and> frame (qs @ l # ps) h h'"
    and "\<exists>h'. list_splice_tail L l h = Inr h' \<and> list_rep h' l (ps @ qs) \<and> frame (qs @ l # ps) h h'"
proof -
  obtain e where e: "load h l = Inr e" "next_el e = first_of ps l" "prev_el e = last_of ps l" using l by (rule list_rep_head)
  have d: "distinct (L # qs @ ps @ [l])" "distinct (L # qs @ l # ps)" "null \<notin> set (ps @ [l])" "null \<notin> set (l # qs @ ps)"
    using l L disj by (auto simp: list_rep_def)
  have "circle h (ps @ [l])" using l circle_rotate [of h "[l]" ps] by (simp add: list_rep_def)
  from splice_between_rep [OF L this _ d(1,3)] obtain h' where
    h': "list_splice_between L l (first_of ps l) h = Inr h'" "circle h' ((qs @ ps) @ [l])" "frame (qs @ ps @ [l]) h h'"
    by (cases ps) auto
  then show "\<exists>h'. list_splice L l h = Inr h' \<and> list_rep h' l (qs @ ps) \<and> frame (qs @ l # ps) h h'"
    using e d circle_rotate [of h' "qs @ ps" "[l]"] by (auto simp: list_splice_def list_rep_def frame_def)
  have "circle h (l # ps)" using l by (simp add: list_rep_def)
  from splice_between_rep [OF L this _ d(2)] d(3) obtain h' where
    h': "list_splice_between L (last_of ps l) l h = Inr h'" "circle h' (qs @ l # ps)" "frame (qs @ l # ps) h h'"
    by (auto simp: last_of_def split: if_splits)
  then show "\<exists>h'. list_splice_tail L l h = Inr h' \<and> list_rep h' l (ps @ qs) \<and> frame (qs @ l # ps) h h'"
    using e d circle_rotate [of h' qs "l # ps"] by (auto simp: list_splice_tail_def list_rep_def)
qed

lemma splice_then_init:
  assumes L: "list_rep h L qs" and disj: "set (l # ps) \<inter> set (L # qs) = {}"
    and h1: "list_rep h1 l rs" "frame (qs @ l # ps) h h1" "set rs = set ps \<union> set qs"
  shows "\<exists>h'. INIT_LIST_HEAD L h1 = Inr h' \<and> list_rep h' l rs \<and> list_rep h' L []"
proof -
  obtain e where "L \<noteq> null" "h L = Some e" using L by (rule list_rep_head)
  moreover have out: "L \<notin> set (qs @ l # ps)" using disj L by (auto simp: list_rep_def)
  ultimately obtain h' where "INIT_LIST_HEAD L h1 = Inr h'" "list_rep h' L []" "frame [L] h1 h'"
    using INIT_LIST_HEAD_rep [of L h1 e] frameD(1) [OF h1(2)] by auto
  moreover from this(3) have "list_rep h' l rs" using list_rep_framed [OF h1(1)] h1(3) out by auto
  ultimately show ?thesis by blast
qed

text \<open>
  Splicing moves a whole list in constant time: for two disjoint lists the elements of the first
  end up in order before (or, for the tail variants, behind) those of the second; the \<^verbatim>\<open>_init\<close>
  variants leave the first list empty, the plain ones leave its head with the old links.
\<close>

theorem list_splice_exact:
  assumes "list_rep h l ps" "list_rep h L qs" "set (l # ps) \<inter> set (L # qs) = {}"
  shows "(\<exists>h'. list_splice L l h = Inr h' \<and> list_rep h' l (qs @ ps) \<and> h' L = h L) \<and>
    (\<exists>h'. list_splice_tail L l h = Inr h' \<and> list_rep h' l (ps @ qs) \<and> h' L = h L) \<and>
    (\<exists>h'. list_splice_init L l h = Inr h' \<and> list_rep h' l (qs @ ps) \<and> list_rep h' L []) \<and>
    (\<exists>h'. list_splice_tail_init L l h = Inr h' \<and> list_rep h' l (ps @ qs) \<and> list_rep h' L [])"
proof -
  have out: "L \<notin> set (qs @ l # ps)" using assms(2,3) by (auto simp: list_rep_def)
  obtain h1 where h1: "list_splice L l h = Inr h1" "list_rep h1 l (qs @ ps)" "frame (qs @ l # ps) h h1"
    using splice_rep(1) [OF assms] by blast
  obtain h2 where h2: "list_splice_tail L l h = Inr h2" "list_rep h2 l (ps @ qs)" "frame (qs @ l # ps) h h2"
    using splice_rep(2) [OF assms] by blast
  have "\<exists>h'. list_splice_init L l h = Inr h' \<and> list_rep h' l (qs @ ps) \<and> list_rep h' L []"
    using splice_then_init [OF assms(2,3) h1(2,3)] h1(1) by (auto simp: list_splice_init_def)
  moreover have "\<exists>h'. list_splice_tail_init L l h = Inr h' \<and> list_rep h' l (ps @ qs) \<and> list_rep h' L []"
    using splice_then_init [OF assms(2,3) h2(2,3)] h2(1) by (auto simp: list_splice_tail_init_def)
  ultimately show ?thesis using h1 h2 frameD(1) [OF h1(3) out] frameD(1) [OF h2(3) out] by blast
qed

section \<open>Iteration\<close>

lemma for_each_next:
  assumes "seg h pr ps l" "l \<notin> set ps" "null \<notin> set ps"
  shows "for_each_loop next_el (\<lambda>p (a, h). Inr (f p a, h)) l (first_of ps l) (a, h) = Some (Inr (fold f ps a, h))"
  using assms
proof (induction ps arbitrary: pr a)
  case Nil
  then show ?case by (simp add: for_each_loop.simps)
next
  case (Cons p ps)
  then obtain e where "h p = Some e" "next_el e = first_of ps l" "seg h p ps l" "p \<noteq> l" "p \<noteq> null"
    by (auto split: option.splits)
  with Cons show ?case by (subst for_each_loop.simps) (simp add: load_valid)
qed

lemma for_each_prev:
  assumes "seg h l ps nx" "l \<notin> set ps" "null \<notin> set ps"
  shows "for_each_loop prev_el (\<lambda>p (a, h). Inr (f p a, h)) l (last_of ps l) (a, h) = Some (Inr (fold f (rev ps) a, h))"
  using assms
proof (induction ps arbitrary: nx a rule: rev_induct)
  case Nil
  then show ?case by (simp add: for_each_loop.simps)
next
  case (snoc p ps)
  then obtain e where "h p = Some e" "prev_el e = last_of ps l" "seg h l ps p" "p \<noteq> l" "p \<noteq> null"
    by (auto simp: seg_append split: option.splits)
  with snoc show ?case by (subst for_each_loop.simps) (simp add: load_valid)
qed

lemma drain_safe:
  assumes "list_rep h l ps"
  shows "\<exists>h'. for_each_safe_loop next_el (\<lambda>p (a, h). bindE (list_del p h) (\<lambda>h. Inr (f p a, h))) l
      (first_of ps l) (first_of (tl ps @ [l]) l) (a, h) = Some (Inr (fold f ps a, h')) \<and> list_rep h' l []"
  using assms
proof (induction ps arbitrary: h a)
  case Nil
  then show ?case by (simp add: for_each_safe_loop.simps)
next
  case (Cons p ps)
  obtain h1 where h1: "list_del p h = Inr h1" "list_rep h1 l ps" using list_rep_del [of h l "[]" p ps] Cons.prems by auto
  have "p \<noteq> l" using Cons.prems by (simp add: list_rep_def)
  have "\<exists>e. load h1 (first_of (ps @ [l]) l) = Inr e \<and> next_el e = first_of (tl ps @ [l]) l \<or>
      ps = [] \<and> load h1 (first_of (ps @ [l]) l) = Inr e"
    using h1(2) by (cases ps) (auto simp: list_rep_def circle_def load_valid split: option.splits)
  then obtain e where e: "load h1 (first_of (ps @ [l]) l) = Inr e" "ps \<noteq> [] \<longrightarrow> next_el e = first_of (tl ps @ [l]) l" by blast
  have "\<exists>h'. for_each_safe_loop next_el (\<lambda>p (a, h). bindE (list_del p h) (\<lambda>h. Inr (f p a, h))) l
      (first_of ps l) (next_el e) (f p a, h1) = Some (Inr (fold f ps (f p a), h')) \<and> list_rep h' l []"
    using Cons.IH [OF h1(2), of "f p a"] e(2) h1(2) by (cases "ps = []") (auto simp: for_each_safe_loop.simps)
  with e(1) h1(1) \<open>p \<noteq> l\<close> show ?case by (subst for_each_safe_loop.simps) simp
qed

text \<open>
  Iteration: over a well-formed list the forward and backward loops end and visit every element
  once, in order and in reverse order. A body that deletes the visited element needs the safe loop,
  which ends, visits every element once and leaves the list empty; in the plain loop it dereferences
  a null pointer on any non-empty list.
\<close>

theorem list_iteration:
  assumes "list_rep h l ps"
  shows "list_for_each (\<lambda>p (a, h). Inr (f p a, h)) l (a, h) = Some (Inr (fold f ps a, h)) \<and>
    list_for_each_prev (\<lambda>p (a, h). Inr (f p a, h)) l (a, h) = Some (Inr (fold f (rev ps) a, h)) \<and>
    (\<exists>h'. list_for_each_safe (\<lambda>p (a, h). bindE (list_del p h) (\<lambda>h. Inr (f p a, h))) l (a, h) = Some (Inr (fold f ps a, h'))
       \<and> list_rep h' l []) \<and>
    (ps \<noteq> [] \<longrightarrow> list_for_each (\<lambda>p (a, h). bindE (list_del p h) (\<lambda>h. Inr (f p a, h))) l (a, h) = Some (Inl NullDeref))"
proof (intro conjI impI)
  obtain e where e: "load h l = Inr e" "next_el e = first_of ps l" "prev_el e = last_of ps l" "l \<noteq> null" using assms by (rule list_rep_head)
  have seg: "seg h l ps l" "l \<notin> set ps" "null \<notin> set ps"
    using assms by (auto simp: list_rep_def circle_def split: option.splits)
  show "list_for_each (\<lambda>p (a, h). Inr (f p a, h)) l (a, h) = Some (Inr (fold f ps a, h))"
    using e for_each_next [OF seg] by (simp add: list_for_each_def)
  show "list_for_each_prev (\<lambda>p (a, h). Inr (f p a, h)) l (a, h) = Some (Inr (fold f (rev ps) a, h))"
    using e for_each_prev [OF seg] by (simp add: list_for_each_prev_def)
  have "\<exists>f. load h (first_of ps l) = Inr f \<and> (ps \<noteq> [] \<longrightarrow> next_el f = first_of (tl ps @ [l]) l)"
    using seg e by (cases ps) (auto simp: load_valid split: option.splits)
  then obtain g where g: "load h (first_of ps l) = Inr g" "ps \<noteq> [] \<longrightarrow> next_el g = first_of (tl ps @ [l]) l" by blast
  show "\<exists>h'. list_for_each_safe (\<lambda>p (a, h). bindE (list_del p h) (\<lambda>h. Inr (f p a, h))) l (a, h) = Some (Inr (fold f ps a, h'))
       \<and> list_rep h' l []"
    using drain_safe [OF assms, of f a] e g assms
    by (cases "ps = []") (auto simp: list_for_each_safe_def for_each_safe_loop.simps)
  assume "ps \<noteq> []"
  then obtain p qs where ps: "ps = p # qs" by (cases ps) auto
  with list_rep_del [of h l "[]" p qs] assms obtain h' where
    "list_del p h = Inr h'" "h' p = Some \<lparr>next_el = null, prev_el = null\<rparr>" by auto
  moreover have "list_del null h' = Inl NullDeref" by (simp add: list_del_def list_unlink_def)
  ultimately show "list_for_each (\<lambda>p (a, h). bindE (list_del p h) (\<lambda>h. Inr (f p a, h))) l (a, h) = Some (Inl NullDeref)"
    using e ps seg(2,3) by (simp add: list_for_each_def for_each_loop.simps load_valid)
qed

section \<open>A list as a queue\<close>

text \<open>
  The contract of a linked queue holds for a list of any head: \<^verbatim>\<open>list_add_tail\<close> enqueues a detached
  node, deleting the first entry dequeues, and what is deleted is detached again.
\<close>

definition list_shift :: "addr \<Rightarrow> node_heap \<Rightarrow> node_heap result" where
  "list_shift l h = bindE (list_first_entry l h) (\<lambda>p. list_del p h)"

definition detached :: "node_heap \<Rightarrow> addr list \<Rightarrow> bool" where
  "detached h qs \<longleftrightarrow> distinct qs \<and> null \<notin> set qs \<and> (\<forall>q \<in> set qs. h q = Some \<lparr>next_el = null, prev_el = null\<rparr>)"

lemma detached_outside:
  assumes "list_rep h l ps" "h q = Some \<lparr>next_el = null, prev_el = null\<rparr>"
  shows "q \<notin> set (l # ps)"
proof
  assume "q \<in> set (l # ps)"
  then obtain xs ys where "l # ps = xs @ q # ys" by (metis split_list)
  then have "circle h (q # ys @ xs)" "null \<notin> set (q # ys @ xs)"
    using assms(1) circle_rotate [of h xs "q # ys"] by (auto simp: list_rep_def)
  with assms(2) show False by (cases "ys @ xs") (auto simp: circle_def)
qed

interpretation list_queue: linked_queue "\<lambda>h. list_rep h l" detached "\<lambda>p. list_add_tail p l" "list_shift l" for l
proof
  fix h ps p qs
  assume rep: "list_rep h l ps" and room: "detached h (p # qs)"
  have out: "p \<notin> set (l # ps)" "\<And>q. q \<in> set qs \<Longrightarrow> q \<notin> set (p # l # ps)"
    using room detached_outside [OF rep] by (auto simp: detached_def)
  have "p \<noteq> null" "p \<in> dom h" using room by (auto simp: detached_def)
  with list_rep_add_tail [OF rep out(1)] obtain h' where
    "list_add_tail p l h = Inr h'" "list_rep h' l (ps @ [p])" "frame (p # l # ps) h h'" by blast
  moreover from this(3) have "detached h' qs"
    using room out(2) by (auto simp: detached_def frame_def)
  ultimately show "\<exists>h'. list_add_tail p l h = Inr h' \<and> list_rep h' l (ps @ [p]) \<and> detached h' qs" by blast
next
  fix h p ps
  assume rep: "list_rep h l (p # ps)"
  then obtain e where "load h l = Inr e" "next_el e = p" by (metis list_rep_head first_of_simps(2))
  with list_rep_del [of h l "[]" p ps] rep show "\<exists>h'. list_shift l h = Inr h' \<and> list_rep h' l ps"
    by (auto simp: list_shift_def list_first_entry_def)
qed

section \<open>Examples\<close>

text \<open>Two heads, 1 and 2, the first with the nodes 10 and 20, the second with 30, and a free node 40.\<close>

definition list_example :: node_heap where
  "list_example = [1 \<mapsto> \<lparr>next_el = 10, prev_el = 20\<rparr>, 10 \<mapsto> \<lparr>next_el = 20, prev_el = 1\<rparr>,
     20 \<mapsto> \<lparr>next_el = 1, prev_el = 10\<rparr>, 2 \<mapsto> \<lparr>next_el = 30, prev_el = 30\<rparr>, 30 \<mapsto> \<lparr>next_el = 2, prev_el = 2\<rparr>,
     40 \<mapsto> \<lparr>next_el = 0, prev_el = 0\<rparr>]"

lemma list_example_rep: "list_rep list_example 1 [10, 20]" "list_rep list_example 2 [30]"
  by (simp_all add: list_rep_def circle_def list_example_def)

theorem list_ops_refine_witness:
  "\<exists>h'. foldE (list_exec 1) [AddTail 40, Move 20, Del 10] list_example = Inr h' \<and> list_rep h' 1 [20, 40]"
proof -
  have "list_pres (dom list_example) 1 [AddTail 40, Move 20, Del 10] [10, 20]" by (simp add: list_example_def)
  from list_ops_refine [OF list_example_rep(1) this] show ?thesis by simp
qed

theorem list_splice_exact_witness:
  "\<exists>h'. list_splice_tail_init 2 1 list_example = Inr h' \<and> list_rep h' 1 [10, 20, 30] \<and> list_rep h' 2 []"
  using list_splice_exact [OF list_example_rep] by auto

theorem list_iteration_witness:
  "list_for_each_prev (\<lambda>p (a, h). Inr (a @ [p], h)) 1 ([], list_example) = Some (Inr ([20, 10], list_example)) \<and>
   list_for_each (\<lambda>p (a, h). bindE (list_del p h) (\<lambda>h. Inr (a + 1, h))) 1 (0 :: nat, list_example) = Some (Inl NullDeref)"
  using list_iteration [OF list_example_rep(1), of "\<lambda>p a. a @ [p]" "[]"]
    list_iteration [OF list_example_rep(1), of "\<lambda>p a. a + 1" "0 :: nat"] by simp
end
