(* ===== verification/Avl.thy ===== *)
theory Avl
  imports Ubox_List
begin

text \<open>
  The part of libubox's AVL trees that \<^verbatim>\<open>ubus_example/lib/inc/libubox/avl.h\<close> implements: the tests, the
  element lookups and the iteration macros. All nodes of a tree are threaded, in the order of their
  keys, on one circular list, and every loop walks that list. Inserting, deleting and searching are
  only declared by the header; the searches are arguments here.

  An element is named by the address of its \<^verbatim>\<open>struct avl_node\<close>, whose first member is the list node.
  The pointers given to a macro are expressions that the macro evaluates wherever it mentions them,
  so they are functions of the heap.
\<close>

section \<open>Trees\<close>

record 'k avl_node =
  parent :: addr
  left :: addr
  right :: addr
  avl_key :: 'k
  balance :: int
  leader :: bool

record 'k avl_tree =
  tree_head :: addr
  root :: addr
  tree_count :: u32
  allow_dups :: bool
  comp :: "'k \<Rightarrow> 'k \<Rightarrow> int"
  cmp_ptr :: addr

datatype avl_find_mode = AVL_FIND_EQUAL | AVL_FIND_LESSEQUAL | AVL_FIND_GREATEREQUAL

definition AVL_TREE_INIT :: "addr \<Rightarrow> ('k \<Rightarrow> 'k \<Rightarrow> int) \<Rightarrow> bool \<Rightarrow> addr \<Rightarrow> node_heap \<Rightarrow> 'k avl_tree \<times> node_heap" where
  \<comment> \<open>the members that the initializer does not name are zero; \<open>l\<close> is the address of the tree's list head\<close>
  "AVL_TREE_INIT l cmp dups ptr h =
     (\<lparr>tree_head = l, root = null, tree_count = 0, allow_dups = dups, comp = cmp, cmp_ptr = ptr\<rparr>, h(l \<mapsto> \<lparr>next_el = l, prev_el = l\<rparr>))"

definition avl_is_first :: "'k avl_tree \<Rightarrow> addr \<Rightarrow> node_heap \<Rightarrow> bool result" where
  "avl_is_first t node h = bindE (load h (tree_head t)) (\<lambda>e. Inr (next_el e = node))"

definition avl_is_last :: "'k avl_tree \<Rightarrow> addr \<Rightarrow> node_heap \<Rightarrow> bool result" where
  "avl_is_last t node h = bindE (load h (tree_head t)) (\<lambda>e. Inr (prev_el e = node))"

definition avl_is_empty :: "'k avl_tree \<Rightarrow> bool" where
  "avl_is_empty t \<longleftrightarrow> tree_count t = 0"

section \<open>Lookups\<close>

text \<open>The three searches of the library, each from a key to a node or null.\<close>

record 'k avl_searches =
  avl_find :: "'k \<Rightarrow> addr"
  avl_find_lessequal :: "'k \<Rightarrow> addr"
  avl_find_greaterequal :: "'k \<Rightarrow> addr"

definition avl_find_at :: "'k avl_searches \<Rightarrow> 'k \<Rightarrow> nat \<Rightarrow> avl_find_mode \<Rightarrow> addr" where
  \<comment> \<open>\<^verbatim>\<open>__avl_find_element\<close>\<close>
  "avl_find_at lib k offset mode =
     (let node = (case mode of AVL_FIND_EQUAL \<Rightarrow> avl_find lib k
                  | AVL_FIND_LESSEQUAL \<Rightarrow> avl_find_lessequal lib k
                  | AVL_FIND_GREATEREQUAL \<Rightarrow> avl_find_greaterequal lib k)
      in if node = null then null else node - offset)"

definition avl_find_element :: "'k avl_searches \<Rightarrow> 'k \<Rightarrow> nat \<Rightarrow> addr" where
  "avl_find_element lib k offset = avl_find_at lib k offset AVL_FIND_EQUAL"

definition avl_find_le_element :: "'k avl_searches \<Rightarrow> 'k \<Rightarrow> nat \<Rightarrow> addr" where
  "avl_find_le_element lib k offset = avl_find_at lib k offset AVL_FIND_LESSEQUAL"

definition avl_find_ge_element :: "'k avl_searches \<Rightarrow> 'k \<Rightarrow> nat \<Rightarrow> addr" where
  "avl_find_ge_element lib k offset = avl_find_at lib k offset AVL_FIND_GREATEREQUAL"

section \<open>Neighbours\<close>

type_synonym pointer = "node_heap \<Rightarrow> addr result"

definition avl_first_element :: "'k avl_tree \<Rightarrow> pointer" where
  "avl_first_element t h = bindE (load h (tree_head t)) (\<lambda>e. Inr (next_el e))"

definition avl_last_element :: "'k avl_tree \<Rightarrow> pointer" where
  "avl_last_element t h = bindE (load h (tree_head t)) (\<lambda>e. Inr (prev_el e))"

definition avl_next_element :: "addr \<Rightarrow> pointer" where
  "avl_next_element p h = bindE (load h p) (\<lambda>e. Inr (next_el e))"

definition avl_prev_element :: "addr \<Rightarrow> pointer" where
  "avl_prev_element p h = bindE (load h p) (\<lambda>e. Inr (prev_el e))"

section \<open>Loops\<close>

text \<open>
  One loop for both directions: \<open>lk\<close> is the link followed, \<open>bk\<close> the link tested. The loop stops at
  the element whose predecessor is the end of the range.
\<close>

type_synonym 'a outcome = "('a \<times> node_heap) result option"

partial_function (option) range_loop ::
  "(list_head \<Rightarrow> addr) \<Rightarrow> (list_head \<Rightarrow> addr) \<Rightarrow> pointer \<Rightarrow> 'a loop_body \<Rightarrow> addr \<Rightarrow> 'a \<times> node_heap \<Rightarrow> 'a outcome" where
  "range_loop lk bk stop body p s =
     (case bindE (load (snd s) p) (\<lambda>e. bindE (stop (snd s)) (\<lambda>q. Inr (bk e \<noteq> q))) of
        Inl f \<Rightarrow> Some (Inl f)
      | Inr go \<Rightarrow>
          if go then
            (case bindE (body p s) (\<lambda>s. bindE (load (snd s) p) (\<lambda>e. Inr (lk e, s))) of
               Inl f \<Rightarrow> Some (Inl f)
             | Inr (p, s) \<Rightarrow> range_loop lk bk stop body p s)
          else Some (Inr s))"

partial_function (option) range_safe_loop ::
  "(list_head \<Rightarrow> addr) \<Rightarrow> (list_head \<Rightarrow> addr) \<Rightarrow> pointer \<Rightarrow> 'a loop_body \<Rightarrow> addr \<Rightarrow> addr \<Rightarrow> 'a \<times> node_heap \<Rightarrow> 'a outcome" where
  "range_safe_loop lk bk stop body p ptr s =
     (case bindE (load (snd s) p) (\<lambda>e. bindE (stop (snd s)) (\<lambda>q. Inr (bk e \<noteq> q))) of
        Inl f \<Rightarrow> Some (Inl f)
      | Inr go \<Rightarrow>
          if go then
            (case bindE (body p s) (\<lambda>s. bindE (load (snd s) ptr) (\<lambda>e. Inr (lk e, s))) of
               Inl f \<Rightarrow> Some (Inl f)
             | Inr (ptr', s) \<Rightarrow> range_safe_loop lk bk stop body ptr ptr' s)
          else Some (Inr s))"

definition avl_for_element_range :: "pointer \<Rightarrow> pointer \<Rightarrow> 'a loop_body \<Rightarrow> 'a \<times> node_heap \<Rightarrow> 'a outcome" where
  "avl_for_element_range first final body s =
     (case first (snd s) of Inl f \<Rightarrow> Some (Inl f) | Inr p \<Rightarrow> range_loop next_el prev_el final body p s)"

definition avl_for_element_range_reverse :: "pointer \<Rightarrow> pointer \<Rightarrow> 'a loop_body \<Rightarrow> 'a \<times> node_heap \<Rightarrow> 'a outcome" where
  "avl_for_element_range_reverse first final body s =
     (case final (snd s) of Inl f \<Rightarrow> Some (Inl f) | Inr p \<Rightarrow> range_loop prev_el next_el first body p s)"

definition avl_for_each_element :: "'k avl_tree \<Rightarrow> 'a loop_body \<Rightarrow> 'a \<times> node_heap \<Rightarrow> 'a outcome" where
  "avl_for_each_element t = avl_for_element_range (avl_first_element t) (avl_last_element t)"

definition avl_for_each_element_reverse :: "'k avl_tree \<Rightarrow> 'a loop_body \<Rightarrow> 'a \<times> node_heap \<Rightarrow> 'a outcome" where
  "avl_for_each_element_reverse t = avl_for_element_range_reverse (avl_first_element t) (avl_last_element t)"

definition avl_for_element_to_last :: "'k avl_tree \<Rightarrow> pointer \<Rightarrow> 'a loop_body \<Rightarrow> 'a \<times> node_heap \<Rightarrow> 'a outcome" where
  "avl_for_element_to_last t first = avl_for_element_range first (avl_last_element t)"

definition avl_for_element_to_last_reverse :: "'k avl_tree \<Rightarrow> pointer \<Rightarrow> 'a loop_body \<Rightarrow> 'a \<times> node_heap \<Rightarrow> 'a outcome" where
  "avl_for_element_to_last_reverse t first = avl_for_element_range_reverse first (avl_last_element t)"

definition avl_for_first_to_element :: "'k avl_tree \<Rightarrow> pointer \<Rightarrow> 'a loop_body \<Rightarrow> 'a \<times> node_heap \<Rightarrow> 'a outcome" where
  "avl_for_first_to_element t final = avl_for_element_range (avl_first_element t) final"

definition avl_for_first_to_element_reverse :: "'k avl_tree \<Rightarrow> pointer \<Rightarrow> 'a loop_body \<Rightarrow> 'a \<times> node_heap \<Rightarrow> 'a outcome" where
  "avl_for_first_to_element_reverse t final = avl_for_element_range_reverse (avl_first_element t) final"

definition avl_for_element_range_safe :: "pointer \<Rightarrow> pointer \<Rightarrow> 'a loop_body \<Rightarrow> 'a \<times> node_heap \<Rightarrow> 'a outcome" where
  "avl_for_element_range_safe first final body s =
     (case bindE (first (snd s)) (\<lambda>p. bindE (first (snd s)) (\<lambda>q. bindE (avl_next_element q (snd s)) (\<lambda>ptr. Inr (p, ptr)))) of
        Inl f \<Rightarrow> Some (Inl f)
      | Inr (p, ptr) \<Rightarrow> range_safe_loop next_el prev_el final body p ptr s)"

definition avl_for_element_range_reverse_safe :: "pointer \<Rightarrow> pointer \<Rightarrow> 'a loop_body \<Rightarrow> 'a \<times> node_heap \<Rightarrow> 'a outcome" where
  "avl_for_element_range_reverse_safe first final body s =
     (case bindE (final (snd s)) (\<lambda>p. bindE (final (snd s)) (\<lambda>q. bindE (avl_prev_element q (snd s)) (\<lambda>ptr. Inr (p, ptr)))) of
        Inl f \<Rightarrow> Some (Inl f)
      | Inr (p, ptr) \<Rightarrow> range_safe_loop prev_el next_el first body p ptr s)"

definition avl_for_each_element_safe :: "'k avl_tree \<Rightarrow> 'a loop_body \<Rightarrow> 'a \<times> node_heap \<Rightarrow> 'a outcome" where
  "avl_for_each_element_safe t = avl_for_element_range_safe (avl_first_element t) (avl_last_element t)"

definition avl_for_each_element_reverse_safe :: "'k avl_tree \<Rightarrow> 'a loop_body \<Rightarrow> 'a \<times> node_heap \<Rightarrow> 'a outcome" where
  "avl_for_each_element_reverse_safe t = avl_for_element_range_reverse_safe (avl_first_element t) (avl_last_element t)"

text \<open>The clearing loop counts down instead of comparing pointers: it ends for every tree.\<close>

function remove_all_loop :: "'a loop_body \<Rightarrow> addr \<Rightarrow> addr \<Rightarrow> 'k avl_tree \<Rightarrow> 'a \<times> node_heap \<Rightarrow> ('k avl_tree \<times> 'a \<times> node_heap) result" where
  "remove_all_loop body p ptr t s =
     (if tree_count t > 0 then
        bindE (body p s) (\<lambda>s.
        bindE (avl_next_element ptr (snd s)) (\<lambda>ptr'.
        remove_all_loop body ptr ptr' (t\<lparr>tree_count := tree_count t - 1\<rparr>) s))
      else Inr (t, s))"
  by pat_completeness auto
termination
  by (relation "measure (\<lambda>(_, _, _, t, _). unat (tree_count t))") (auto simp: measure_unat word_gt_0)

declare remove_all_loop.simps [simp del]

definition avl_remove_all_elements :: "'k avl_tree \<Rightarrow> 'a loop_body \<Rightarrow> 'a \<times> node_heap \<Rightarrow> ('k avl_tree \<times> 'a \<times> node_heap) result" where
  "avl_remove_all_elements t body s =
     (let (a, h) = s in
      bindE (avl_first_element t h) (\<lambda>p.
      bindE (avl_next_element p h) (\<lambda>ptr.
      bindE (INIT_LIST_HEAD (tree_head t) h) (\<lambda>h.
      remove_all_loop body p ptr (t\<lparr>root := null\<rparr>) (a, h)))))"

section \<open>Walking in either direction\<close>

primrec chain :: "(list_head \<Rightarrow> addr) \<Rightarrow> (list_head \<Rightarrow> addr) \<Rightarrow> node_heap \<Rightarrow> addr \<Rightarrow> addr list \<Rightarrow> addr \<Rightarrow> bool" where
  "chain lk bk h pr [] nx \<longleftrightarrow> True"
| "chain lk bk h pr (p # ps) nx \<longleftrightarrow>
     (case h p of None \<Rightarrow> False | Some e \<Rightarrow> bk e = pr \<and> lk e = first_of ps nx \<and> chain lk bk h p ps nx)"

lemma chain_forward: "chain next_el prev_el h pr ps nx = seg h pr ps nx"
  by (induction ps arbitrary: pr) (auto split: option.splits)

lemma chain_append: "chain lk bk h pr (xs @ ys) nx \<longleftrightarrow> chain lk bk h pr xs (first_of ys nx) \<and> chain lk bk h (last_of xs pr) ys nx"
  by (induction xs arbitrary: pr) (auto split: option.splits)

lemma first_of_rev: "first_of (rev xs) d = last_of xs d"
  by (cases xs rule: rev_cases) simp_all

lemma last_of_rev: "last_of (rev xs) d = first_of xs d"
  by (cases xs) simp_all

lemma chain_backward: "chain prev_el next_el h nx (rev ps) pr = seg h pr ps nx"
proof (induction ps arbitrary: pr)
  case Nil
  then show ?case by simp
next
  case (Cons p ps)
  show ?case by (simp add: chain_append last_of_rev Cons split: option.splits) blast
qed

text \<open>A body that only works on the state of its own.\<close>

abbreviation visit :: "(addr \<Rightarrow> 'a \<Rightarrow> 'a) \<Rightarrow> 'a loop_body" where
  "visit f \<equiv> \<lambda>p (a, h). Inr (f p a, h)"

lemma range_loop_chain:
  assumes "chain lk bk h pr ys nx" "load h nx = Inr e" "bk e = q" "stop h = Inr q"
    and "q \<notin> set (butlast (pr # ys))" "null \<notin> set ys"
  shows "range_loop lk bk stop (\<lambda>p (a, h). Inr (f p a, h)) (first_of ys nx) (a, h) = Some (Inr (fold f ys a, h))"
  using assms
proof (induction ys arbitrary: pr a)
  case Nil
  then show ?case by (simp add: range_loop.simps)
next
  case (Cons y ys)
  then obtain g where g: "load h y = Inr g" "bk g = pr" "lk g = first_of ys nx" "chain lk bk h y ys nx"
    by (auto simp: load_valid split: option.splits)
  with Cons.IH [OF g(4), of "f y a"] Cons.prems show ?case by (subst range_loop.simps) simp
qed

text \<open>The pieces of a list that the loops run over.\<close>

lemma list_rep_chains:
  assumes "list_rep h l (xs @ ys @ zs)"
  shows "chain next_el prev_el h (last_of xs l) ys (first_of zs l)" "chain prev_el next_el h (first_of zs l) (rev ys) (last_of xs l)"
    "null \<notin> set ys" "distinct (l # xs @ ys @ zs)"
  using assms by (auto simp: chain_forward chain_backward list_rep_def circle_def seg_append split: option.splits)

lemma list_rep_node:
  assumes "list_rep h l (xs @ p # ys)"
  shows "\<exists>e. load h p = Inr e \<and> prev_el e = last_of xs l \<and> next_el e = first_of ys l"
  using list_rep_chains(1,3) [of h l xs "[p]" ys] assms by (auto simp: load_valid split: option.splits)

lemma list_rep_after:
  assumes "list_rep h l (xs @ ys)"
  shows "\<exists>e. load h (first_of ys l) = Inr e \<and> prev_el e = last_of xs l"
proof (cases ys)
  case Nil
  with assms show ?thesis by (auto elim: list_rep_head)
next
  case (Cons y zs)
  with assms show ?thesis using list_rep_node [of h l xs y zs] by auto
qed

lemma list_rep_before:
  assumes "list_rep h l (xs @ ys)"
  shows "\<exists>e. load h (last_of xs l) = Inr e \<and> next_el e = first_of ys l"
proof (cases xs rule: rev_cases)
  case Nil
  with assms show ?thesis by (auto elim: list_rep_head)
next
  case (snoc zs y)
  with assms show ?thesis using list_rep_node [of h l zs y ys] by auto
qed

lemma in_butlastD: "x \<in> set (butlast (y # ys)) \<Longrightarrow> ys \<noteq> [] \<and> (x = y \<or> x \<in> set (butlast ys))"
  by (auto split: if_splits)

lemma range_forward:
  assumes "list_rep h l (xs @ ys @ zs)" "stop h = Inr (last_of ys (last_of xs l))"
  shows "range_loop next_el prev_el stop (\<lambda>p (a, h). Inr (f p a, h)) (first_of ys (first_of zs l)) (a, h) = Some (Inr (fold f ys a, h))"
proof -
  note c = list_rep_chains [OF assms(1)]
  obtain e where e: "load h (first_of zs l) = Inr e" "prev_el e = last_of ys (last_of xs l)"
    using list_rep_after [of h l "xs @ ys" zs] assms(1) by auto
  have "last_of ys (last_of xs l) \<notin> set (butlast (last_of xs l # ys))"
  proof
    assume "last_of ys (last_of xs l) \<in> set (butlast (last_of xs l # ys))"
    with in_butlastD obtain y us where "ys = us @ [y]" "y = last_of xs l \<or> y \<in> set us"
      by (cases ys rule: rev_cases) fastforce+
    with c(4) show False by (cases "xs = []") (auto simp: last_of_def dest: last_in_set)
  qed
  from range_loop_chain [where stop = stop, OF c(1) e assms(2) this c(3)] show ?thesis .
qed

lemma range_backward:
  assumes "list_rep h l (xs @ ys @ zs)" "stop h = Inr (first_of ys (first_of zs l))"
  shows "range_loop prev_el next_el stop (\<lambda>p (a, h). Inr (f p a, h)) (last_of ys (last_of xs l)) (a, h) = Some (Inr (fold f (rev ys) a, h))"
proof -
  note c = list_rep_chains [OF assms(1)]
  obtain e where e: "load h (last_of xs l) = Inr e" "next_el e = first_of ys (first_of zs l)"
    using list_rep_before [of h l xs "ys @ zs"] assms(1) by auto
  have "first_of ys (first_of zs l) \<notin> set (butlast (first_of zs l # rev ys))"
  proof
    assume "first_of ys (first_of zs l) \<in> set (butlast (first_of zs l # rev ys))"
    with in_butlastD obtain y us where "ys = y # us" "y = first_of zs l \<or> y \<in> set us"
      by (cases ys) fastforce+
    with c(4) show False by (cases zs) auto
  qed
  from range_loop_chain [where stop = stop, OF c(2) e assms(2) this] c(3) show ?thesis by (simp add: first_of_rev)
qed

lemma tree_ends:
  assumes "list_rep h (tree_head t) ps"
  shows "avl_first_element t h = Inr (first_of ps (tree_head t))" "avl_last_element t h = Inr (last_of ps (tree_head t))"
  using assms by (auto simp: avl_first_element_def avl_last_element_def elim: list_rep_head)

lemma avl_range_all:
  assumes "list_rep h (tree_head t) ps"
  shows "avl_for_each_element t (visit f) (a, h) = Some (Inr (fold f ps a, h))"
    "avl_for_each_element_reverse t (visit f) (a, h) = Some (Inr (fold f (rev ps) a, h))"
  using range_forward [of h "tree_head t" "[]" ps "[]" "avl_last_element t" f a]
    range_backward [of h "tree_head t" "[]" ps "[]" "avl_first_element t" f a] assms tree_ends [OF assms]
  by (simp_all add: avl_for_each_element_def avl_for_each_element_reverse_def avl_for_element_range_def avl_for_element_range_reverse_def)

text \<open>
  C18. Every loop over an ordered tree ends and visits exactly its range, once each: the elements from
  \<open>first\<close> to \<open>last\<close> inclusive, all of them, those up to or from one element, forwards or backwards, an
  empty tree included. The bodies here leave the tree alone.
\<close>

theorem avl_iteration:
  assumes "list_rep h (tree_head t) (xs @ ys @ zs)"
  shows "avl_for_each_element t (visit f) (a, h) = Some (Inr (fold f (xs @ ys @ zs) a, h)) \<and>
    avl_for_each_element_reverse t (visit f) (a, h) = Some (Inr (fold f (rev (xs @ ys @ zs)) a, h)) \<and>
    (ys \<noteq> [] \<longrightarrow>
      avl_for_element_range (\<lambda>_. Inr (hd ys)) (\<lambda>_. Inr (last ys)) (visit f) (a, h) = Some (Inr (fold f ys a, h)) \<and>
      avl_for_element_range_reverse (\<lambda>_. Inr (hd ys)) (\<lambda>_. Inr (last ys)) (visit f) (a, h) = Some (Inr (fold f (rev ys) a, h)) \<and>
      avl_for_element_to_last t (\<lambda>_. Inr (hd ys)) (visit f) (a, h) = Some (Inr (fold f (ys @ zs) a, h)) \<and>
      avl_for_element_to_last_reverse t (\<lambda>_. Inr (hd ys)) (visit f) (a, h) = Some (Inr (fold f (rev (ys @ zs)) a, h)) \<and>
      avl_for_first_to_element t (\<lambda>_. Inr (last ys)) (visit f) (a, h) = Some (Inr (fold f (xs @ ys) a, h)) \<and>
      avl_for_first_to_element_reverse t (\<lambda>_. Inr (last ys)) (visit f) (a, h) = Some (Inr (fold f (rev (xs @ ys)) a, h)))"
proof -
  let ?l = "tree_head t"
  note ends = tree_ends [OF assms(1)]
  have all: "list_rep h ?l ([] @ (xs @ ys @ zs) @ [])" "list_rep h ?l ([] @ (xs @ ys) @ zs)" "list_rep h ?l (xs @ (ys @ zs) @ [])"
    using assms(1) by simp_all
  note defs = avl_for_each_element_def avl_for_each_element_reverse_def avl_for_element_range_def avl_for_element_range_reverse_def
    avl_for_element_to_last_def avl_for_element_to_last_reverse_def avl_for_first_to_element_def avl_for_first_to_element_reverse_def
  have ne: "ys \<noteq> [] \<Longrightarrow> first_of ys d = hd ys" "ys \<noteq> [] \<Longrightarrow> last_of ys d = last ys" for d
    by (cases ys) (simp_all add: last_of_def)
  show ?thesis
    using range_forward [OF all(1), of "avl_last_element t" f a] range_backward [OF all(1), of "avl_first_element t" f a]
      range_forward [OF assms(1), of "\<lambda>_. Inr (last ys)" f a] range_backward [OF assms(1), of "\<lambda>_. Inr (hd ys)" f a]
      range_forward [OF all(3), of "avl_last_element t" f a] range_backward [OF all(3), of "\<lambda>_. Inr (hd ys)" f a]
      range_forward [OF all(2), of "\<lambda>_. Inr (last ys)" f a] range_backward [OF all(2), of "avl_first_element t" f a] ends ne
    by (cases "ys = []") (simp_all add: defs)
qed

section \<open>Removing elements during a loop\<close>

abbreviation removing :: "(addr \<Rightarrow> 'a \<Rightarrow> 'a) \<Rightarrow> 'a loop_body" where
  "removing f \<equiv> \<lambda>p (a, h). bindE (list_del p h) (\<lambda>h. Inr (f p a, h))"

lemma drain_forward:
  assumes "list_rep h (tree_head t) ps" "ps \<noteq> [] \<Longrightarrow> ptr = first_of (tl ps) (tree_head t)"
  shows "\<exists>h'. range_safe_loop next_el prev_el (avl_last_element t) (removing f) (first_of ps (tree_head t)) ptr (a, h) =
      Some (Inr (fold f ps a, h')) \<and> list_rep h' (tree_head t) []"
  using assms
proof (induction ps arbitrary: h a ptr)
  case Nil
  then obtain e where "load h (tree_head t) = Inr e" "prev_el e = tree_head t" "next_el e = tree_head t"
    by (metis list_rep_head first_of_simps(1) last_of_simps(1))
  with Nil show ?case by (subst range_safe_loop.simps) (simp add: tree_ends)
next
  case (Cons p ps)
  let ?l = "tree_head t"
  obtain h1 where h1: "list_del p h = Inr h1" "list_rep h1 ?l ps" using list_rep_del [of h ?l "[]" p ps] Cons.prems by auto
  obtain e where e: "load h p = Inr e" "prev_el e = ?l" using list_rep_node [of h ?l "[]" p ps] Cons.prems by auto
  have go: "?l \<noteq> last_of ps p" using Cons.prems(1) by (auto simp: list_rep_def last_of_def)
  obtain g where g: "load h1 (first_of ps ?l) = Inr g" "ps \<noteq> [] \<Longrightarrow> next_el g = first_of (tl ps) ?l"
    using list_rep_after [of h1 ?l "[]" ps] list_rep_node [of h1 ?l "[]" "hd ps" "tl ps"] h1(2) by (cases ps) auto
  with Cons h1 e go tree_ends(2) [OF Cons.prems(1)] show ?case by (subst range_safe_loop.simps) simp
qed

lemma drain_backward:
  assumes "list_rep h (tree_head t) ps" "ps \<noteq> [] \<Longrightarrow> ptr = last_of (butlast ps) (tree_head t)"
  shows "\<exists>h'. range_safe_loop prev_el next_el (avl_first_element t) (removing f) (last_of ps (tree_head t)) ptr (a, h) =
      Some (Inr (fold f (rev ps) a, h')) \<and> list_rep h' (tree_head t) []"
  using assms
proof (induction ps arbitrary: h a ptr rule: rev_induct)
  case Nil
  then obtain e where "load h (tree_head t) = Inr e" "prev_el e = tree_head t" "next_el e = tree_head t"
    by (metis list_rep_head first_of_simps(1) last_of_simps(1))
  with Nil show ?case by (subst range_safe_loop.simps) (simp add: tree_ends)
next
  case (snoc p ps)
  let ?l = "tree_head t"
  obtain h1 where h1: "list_del p h = Inr h1" "list_rep h1 ?l ps" using list_rep_del [of h ?l ps p "[]"] snoc.prems by auto
  obtain e where e: "load h p = Inr e" "next_el e = ?l" using list_rep_node [of h ?l ps p "[]"] snoc.prems by auto
  have go: "?l \<noteq> first_of ps p" using snoc.prems(1) by (cases ps) (auto simp: list_rep_def)
  obtain g where g: "load h1 (last_of ps ?l) = Inr g" "ps \<noteq> [] \<Longrightarrow> prev_el g = last_of (butlast ps) ?l"
    using list_rep_before [of h1 ?l ps "[]"] list_rep_node [of h1 ?l "butlast ps" "last ps" "[]"] h1(2)
    by (cases ps rule: rev_cases) auto
  with snoc h1 e go tree_ends(1) [OF snoc.prems(1)] show ?case by (subst range_safe_loop.simps) simp
qed

lemma circle_node:
  assumes "circle h (p # zs)" "p \<noteq> null"
  shows "\<exists>e. load h p = Inr e \<and> h p = Some e \<and> next_el e = first_of zs p \<and> prev_el e = last_of zs p"
  using assms by (auto simp: circle_def load_valid split: option.splits)

lemma list_del_circle:
  assumes "circle h (p # zs)" "zs \<noteq> []" "distinct (p # zs)" "null \<notin> set (p # zs)"
  shows "\<exists>h'. list_del p h = Inr h' \<and> circle h' zs"
proof -
  obtain h1 where h1: "list_unlink p h = Inr h1" "circle h1 zs" "frame zs h h1" using list_unlink_circle [OF assms] by blast
  obtain e where "h p = Some e" using circle_node [OF assms(1)] assms(4) by auto
  with h1 assms show ?thesis by (auto simp: list_del_def fault_simps frame_def circle_frame)
qed

lemma overrun_ring:
  assumes "circle h (p # rs)" "distinct (p # rs)" "null \<notin> set (p # rs)" "q \<notin> set (p # rs)" "q \<noteq> null" "ptr = first_of rs p"
  shows "range_safe_loop next_el prev_el (\<lambda>_. Inr q) (removing f) p ptr (a, h) = Some (Inl NullDeref)"
  using assms
proof (induction rs arbitrary: p h a ptr)
  case Nil
  let ?z = "\<lparr>next_el = null, prev_el = null\<rparr>"
  obtain e where e: "load h p = Inr e" "h p = Some e" "prev_el e = p" using circle_node [OF Nil.prems(1)] Nil.prems(3) by auto
  have "list_del p h = Inr (h(p \<mapsto> ?z))"
    using e Nil.prems by (cases e) (simp add: list_del_def list_unlink_single fault_simps)
  moreover have "list_del p (h(p \<mapsto> ?z)) = Inl NullDeref" using Nil.prems by (simp add: list_del_def list_unlink_def fault_simps)
  then have "range_safe_loop next_el prev_el (\<lambda>_. Inr q) (removing f) p null (b, h(p \<mapsto> ?z)) = Some (Inl NullDeref)" for b
    using Nil.prems by (subst range_safe_loop.simps) (simp add: fault_simps)
  ultimately show ?case using e Nil.prems by (subst range_safe_loop.simps) (simp add: fault_simps)
next
  case (Cons r rs)
  obtain e where e: "load h p = Inr e" "prev_el e = last_of rs r" using circle_node [OF Cons.prems(1)] Cons.prems(3) by auto
  have "last_of rs r \<noteq> q" using Cons.prems(4) by (auto simp: last_of_def)
  moreover obtain h1 where h1: "list_del p h = Inr h1" "circle h1 (r # rs)" using list_del_circle Cons.prems by (metis list.discI)
  obtain g where "load h1 r = Inr g" "next_el g = first_of rs r" using circle_node [OF h1(2)] Cons.prems(3) by auto
  ultimately show ?case using Cons.IH [OF h1(2)] Cons.prems e h1(1) by (subst range_safe_loop.simps) simp
qed

lemma overrun_range:
  assumes "circle h (y # ys @ rs)" "rs \<noteq> []" "distinct (y # ys @ rs)" "null \<notin> set (y # ys @ rs)" "ptr = first_of (ys @ rs) y"
  shows "range_safe_loop next_el prev_el (\<lambda>_. Inr (last_of ys y)) (removing f) y ptr (a, h) = Some (Inl NullDeref)"
  using assms
proof (induction ys arbitrary: y h a ptr)
  case Nil
  then obtain r rs' where rs: "rs = r # rs'" by (cases rs) auto
  obtain e where e: "load h y = Inr e" "prev_el e = last_of rs y" using circle_node [OF Nil.prems(1)] Nil.prems(4) by auto
  have go: "last_of rs y \<noteq> y" using Nil.prems by (auto simp: last_of_def)
  obtain h1 where h1: "list_del y h = Inr h1" "circle h1 (r # rs')" using list_del_circle Nil.prems rs by (metis append_Nil)
  obtain g where "load h1 r = Inr g" "next_el g = first_of rs' r" using circle_node [OF h1(2)] Nil.prems(4) rs by auto
  with overrun_ring [OF h1(2), of y] Nil.prems rs e go h1(1) show ?case by (subst range_safe_loop.simps) simp
next
  case (Cons z ys)
  obtain e where e: "load h y = Inr e" "prev_el e = last_of rs (last_of ys z)" using circle_node [OF Cons.prems(1)] Cons.prems(4) by auto
  have "last_of ys z \<in> set (z # ys)" "last_of rs (last_of ys z) \<in> set rs" using Cons.prems(2) by (auto simp: last_of_def)
  then have go: "last_of rs (last_of ys z) \<noteq> last_of ys z" using Cons.prems(3) by auto
  obtain h1 where h1: "list_del y h = Inr h1" "circle h1 (z # ys @ rs)"
    using list_del_circle Cons.prems by (metis append_Cons list.discI)
  obtain g where "load h1 z = Inr g" "next_el g = first_of (ys @ rs) z" using circle_node [OF h1(2)] Cons.prems(4) by auto
  with Cons.IH [OF h1(2) Cons.prems(2)] Cons.prems(3,4,5) e go h1(1) show ?case by (subst range_safe_loop.simps) simp
qed

text \<open>
  C19. Taking the visited element off the list: the safe loops over a whole tree allow it, visit every
  element once, in order or in reverse order, and leave the list empty. The safe loop over a range
  does not: once the last element of the range is gone nothing marks its end any more, so the loop
  runs on through the rest of the list and the list head and ends in a null dereference. This holds
  for every range whose last element is given by a pointer.
\<close>

theorem avl_safe_removal:
  assumes "list_rep h (tree_head t) (xs @ ys @ zs)"
  shows "(\<exists>h'. avl_for_each_element_safe t (removing f) (a, h) = Some (Inr (fold f (xs @ ys @ zs) a, h')) \<and> list_rep h' (tree_head t) []) \<and>
    (\<exists>h'. avl_for_each_element_reverse_safe t (removing f) (a, h) = Some (Inr (fold f (rev (xs @ ys @ zs)) a, h')) \<and> list_rep h' (tree_head t) []) \<and>
    (ys \<noteq> [] \<longrightarrow> avl_for_element_range_safe (\<lambda>_. Inr (hd ys)) (\<lambda>_. Inr (last ys)) (removing f) (a, h) = Some (Inl NullDeref))"
proof (intro conjI impI)
  let ?l = "tree_head t" and ?ps = "xs @ ys @ zs"
  note ends = tree_ends [OF assms]
  obtain g where g: "load h (first_of ?ps ?l) = Inr g" "?ps \<noteq> [] \<Longrightarrow> next_el g = first_of (tl ?ps) ?l"
    using list_rep_after [of h ?l "[]" ?ps] list_rep_node [of h ?l "[]" "hd ?ps" "tl ?ps"] assms by (cases ?ps) auto
  with drain_forward [OF assms, of "next_el g" f a] ends
  show "\<exists>h'. avl_for_each_element_safe t (removing f) (a, h) = Some (Inr (fold f ?ps a, h')) \<and> list_rep h' ?l []"
    by (simp add: avl_for_each_element_safe_def avl_for_element_range_safe_def avl_next_element_def del: first_of_append)
  obtain g where g: "load h (last_of ?ps ?l) = Inr g" "?ps \<noteq> [] \<Longrightarrow> prev_el g = last_of (butlast ?ps) ?l"
    using list_rep_before [of h ?l ?ps "[]"] list_rep_node [of h ?l "butlast ?ps" "last ?ps" "[]"] assms
    by (cases ?ps rule: rev_cases) auto
  with drain_backward [OF assms, of "prev_el g" f a] ends
  show "\<exists>h'. avl_for_each_element_reverse_safe t (removing f) (a, h) = Some (Inr (fold f (rev ?ps) a, h')) \<and> list_rep h' ?l []"
    by (simp add: avl_for_each_element_reverse_safe_def avl_for_element_range_reverse_safe_def avl_prev_element_def del: last_of_append)
  assume "ys \<noteq> []"
  then obtain y us where ys: "ys = y # us" by (cases ys) auto
  have c: "circle h (y # us @ (zs @ ?l # xs))" "distinct (y # us @ (zs @ ?l # xs))" "null \<notin> set (y # us @ (zs @ ?l # xs))"
    using assms circle_rotate [of h "?l # xs" "ys @ zs"] ys by (auto simp: list_rep_def)
  obtain e where "load h y = Inr e" "next_el e = first_of (us @ zs @ ?l # xs) y" using circle_node [OF c(1)] c(3) by auto
  with overrun_range [OF c(1) _ c(2,3) refl, of f a] ys
  show "avl_for_element_range_safe (\<lambda>_. Inr (hd ys)) (\<lambda>_. Inr (last ys)) (removing f) (a, h) = Some (Inl NullDeref)"
    by (simp add: avl_for_element_range_safe_def avl_next_element_def last_of_def split: if_splits)
qed

section \<open>Clearing a tree\<close>

abbreviation freeing :: "(addr \<Rightarrow> 'a \<Rightarrow> 'a) \<Rightarrow> 'a loop_body" where
  "freeing f \<equiv> \<lambda>p (a, h). bindE (release h p) (\<lambda>h. Inr (f p a, h))"

lemma remove_all_run:
  assumes "seg h pr ps l" "distinct (l # ps)" "null \<notin> set (l # ps)" "h l = Some \<lparr>next_el = l, prev_el = l\<rparr>"
    and "unat (tree_count t) = length ps" "ps \<noteq> [] \<Longrightarrow> ptr = first_of (tl ps) l"
  shows "remove_all_loop (freeing f) (first_of ps l) ptr t (a, h) =
    Inr (t\<lparr>tree_count := 0\<rparr>, fold f ps a, \<lambda>q. if q \<in> set ps then None else h q)"
  using assms
proof (induction ps arbitrary: h pr a t ptr)
  case Nil
  then have "tree_count t = 0" by (simp add: unat_eq_0)
  then show ?case by (subst remove_all_loop.simps) simp
next
  case (Cons p ps)
  let ?h = "h(p := None)" and ?t = "t\<lparr>tree_count := tree_count t - 1\<rparr>"
  have rel: "release h p = Inr ?h" using Cons.prems by (auto simp: fault_simps split: option.splits)
  have "tree_count t \<noteq> 0" using Cons.prems(5) by auto
  then have pos: "tree_count t > 0" and count: "unat (tree_count ?t) = length ps"
    using Cons.prems(5) unat_minus_one [of "tree_count t"] by (auto simp: word_gt_0)
  have tail: "seg ?h p ps l" "?h l = Some \<lparr>next_el = l, prev_el = l\<rparr>"
    using Cons.prems(1,2,4) by (auto split: option.splits)
  obtain g where g: "load ?h (first_of ps l) = Inr g" "ps \<noteq> [] \<Longrightarrow> next_el g = first_of (tl ps) l"
    using tail Cons.prems(2,3) by (cases ps) (auto simp: load_def split: option.splits)
  have "remove_all_loop (freeing f) (first_of ps l) (next_el g) ?t (f p a, ?h) =
      Inr (?t\<lparr>tree_count := 0\<rparr>, fold f ps (f p a), \<lambda>q. if q \<in> set ps then None else ?h q)"
    using Cons.prems(2,3) by (intro Cons.IH [OF tail(1) _ _ tail(2) count g(2)]) simp_all
  moreover have "(\<lambda>q. if q \<in> set ps then None else ?h q) = (\<lambda>q. if q \<in> set (p # ps) then None else h q)" by auto
  ultimately show ?case
    using pos rel g(1) Cons.prems(6) by (subst remove_all_loop.simps) (simp add: avl_next_element_def)
qed

text \<open>
  C40. Clearing a tree whose counter is right: the loop ends, the body may free every element it is
  given, each element is visited and freed exactly once, in order, no freed element is read again,
  and the tree is left with an empty list, no root and a count of zero.
\<close>

theorem avl_remove_all:
  assumes "list_rep h (tree_head t) ps" "unat (tree_count t) = length ps"
  shows "\<exists>h'. avl_remove_all_elements t (freeing f) (a, h) = Inr (t\<lparr>root := null, tree_count := 0\<rparr>, fold f ps a, h') \<and>
    list_rep h' (tree_head t) [] \<and> (\<forall>p. p \<noteq> tree_head t \<longrightarrow> h' p = (if p \<in> set ps then None else h p))"
proof -
  let ?l = "tree_head t" and ?h = "h(tree_head t \<mapsto> \<lparr>next_el = tree_head t, prev_el = tree_head t\<rparr>)"
  let ?h' = "\<lambda>q. if q \<in> set ps then None else ?h q"
  obtain e where e: "?l \<noteq> null" "h ?l = Some e" using assms(1) by (rule list_rep_head)
  have init: "INIT_LIST_HEAD ?l h = Inr ?h" using e by (cases e) (simp add: INIT_LIST_HEAD_def fault_simps)
  have l: "distinct (?l # ps)" "null \<notin> set (?l # ps)" "seg h ?l ps ?l"
    using assms(1) by (auto simp: list_rep_def circle_def split: option.splits)
  obtain g where g: "load h (first_of ps ?l) = Inr g" "ps \<noteq> [] \<Longrightarrow> next_el g = first_of (tl ps) ?l"
    using list_rep_after [of h ?l "[]" ps] list_rep_node [of h ?l "[]" "hd ps" "tl ps"] assms by (cases ps) auto
  have "remove_all_loop (freeing f) (first_of ps ?l) (next_el g) (t\<lparr>root := null\<rparr>) (a, ?h) =
      Inr (t\<lparr>root := null, tree_count := 0\<rparr>, fold f ps a, ?h')"
    using remove_all_run [of ?h ?l ps ?l "t\<lparr>root := null\<rparr>" "next_el g" f a] l assms(2) g(2) by simp
  moreover have "list_rep ?h' ?l []" using l by (simp add: list_rep_def circle_one)
  ultimately show ?thesis
    using init g(1) tree_ends(1) [OF assms(1)]
    by (intro exI [of _ ?h']) (simp add: avl_remove_all_elements_def avl_next_element_def)
qed

section \<open>Examples\<close>

definition tree_example :: "nat avl_tree" where
  "tree_example = \<lparr>tree_head = 1, root = 10, tree_count = 2, allow_dups = False, comp = \<lambda>a b. int a - int b, cmp_ptr = null\<rparr>"

lemma tree_example_rep: "list_rep list_example (tree_head tree_example) ([10] @ [20] @ [])"
  using list_example_rep(1) by (simp add: tree_example_def)

theorem avl_iteration_witness:
  "avl_for_each_element_reverse tree_example (visit (\<lambda>p a. a @ [p])) ([], list_example) = Some (Inr ([20, 10], list_example)) \<and>
   avl_for_first_to_element tree_example (\<lambda>_. Inr 20) (visit (\<lambda>p a. a @ [p])) ([], list_example) = Some (Inr ([10, 20], list_example))"
  using avl_iteration [OF tree_example_rep, of "\<lambda>p a. a @ [p]" "[]"] by simp

theorem avl_safe_removal_witness:
  "avl_for_element_range_safe (\<lambda>_. Inr 20) (\<lambda>_. Inr 20) (removing (\<lambda>p a. a @ [p])) ([], list_example) = Some (Inl NullDeref) \<and>
   (\<exists>h'. avl_for_each_element_safe tree_example (removing (\<lambda>p a. a @ [p])) ([], list_example) = Some (Inr ([10, 20], h')) \<and> list_rep h' 1 [])"
  using avl_safe_removal [OF tree_example_rep, of "\<lambda>p a. a @ [p]" "[]"] by (simp add: tree_example_def)

theorem avl_remove_all_witness:
  "\<exists>h'. avl_remove_all_elements tree_example (freeing (\<lambda>p a. a @ [p])) ([], list_example) =
     Inr (tree_example\<lparr>root := null, tree_count := 0\<rparr>, [10, 20], h') \<and> list_rep h' 1 [] \<and> h' 10 = None \<and> h' 40 = list_example 40"
proof -
  have "list_rep list_example (tree_head tree_example) [10, 20]" "unat (tree_count tree_example) = length [10 :: addr, 20]"
    using tree_example_rep by (simp_all add: tree_example_def)
  from avl_remove_all [OF this, of "\<lambda>p a. a @ [p]" "[]"] show ?thesis by (auto simp: tree_example_def)
qed

end
