(* ===== verification/Ubox_Containers.thy ===== *)
theory Ubox_Containers
  imports Avl
begin

text \<open>
  The containers libubox builds on its lists and trees, as far as the headers implement them:
  versioned lists (\<^verbatim>\<open>vlist.h\<close>), string-keyed lists (\<^verbatim>\<open>kvlist.h\<close>), lists that survive removal during
  iteration (\<^verbatim>\<open>safe_list.h\<close>) and task queues (\<^verbatim>\<open>runqueue.h\<close>), all under
  \<^verbatim>\<open>ubus_example/lib/inc/libubox\<close>.
\<close>

section \<open>Versioned lists\<close>

record 'k vlist_tree =
  vlist_avl :: "'k avl_tree"
  keep_old :: bool
  no_delete :: bool
  version :: int

record 'k vlist_node =
  vlist_node_avl :: "'k avl_node"
  node_version :: int

definition VLIST_TREE_INIT :: "addr \<Rightarrow> ('k \<Rightarrow> 'k \<Rightarrow> int) \<Rightarrow> bool \<Rightarrow> bool \<Rightarrow> node_heap \<Rightarrow> 'k vlist_tree \<times> node_heap" where
  "VLIST_TREE_INIT l cmp keep nodel h =
     (let (t, h) = AVL_TREE_INIT l cmp False null h in
      (\<lparr>vlist_avl = t, keep_old = keep, no_delete = nodel, version = 1\<rparr>, h))"

definition vlist_find :: "'k avl_searches \<Rightarrow> 'k \<Rightarrow> nat \<Rightarrow> addr" where
  "vlist_find lib name offset = avl_find_element lib name offset"

definition vlist_update :: "'k vlist_tree \<Rightarrow> 'k vlist_tree result" where
  "vlist_update t = (if version t + 1 < 2 ^ 31 then Inr (t\<lparr>version := version t + 1\<rparr>) else Inl SignedOverflow)"

definition vlist_for_each_element :: "'k vlist_tree \<Rightarrow> 'a loop_body \<Rightarrow> 'a \<times> node_heap \<Rightarrow> 'a outcome" where
  "vlist_for_each_element t = avl_for_each_element (vlist_avl t)"

section \<open>String-keyed lists\<close>

text \<open>
  Keys are pointers to strings, values are the bytes behind the node. The loop reads the key of the
  next position before it knows whether that is a node: at the list head the key's offset is that of
  the comparator's argument in the tree.
\<close>

record kvlist =
  kv_avl :: "addr avl_tree"
  get_len :: "addr \<Rightarrow> int"

record kvlist_node =
  kv_node_avl :: "addr avl_node"
  kv_data :: "u8 list"

type_synonym kv_store = "addr \<rightharpoonup> kvlist_node"

definition KVLIST_INIT :: "addr \<Rightarrow> (addr \<Rightarrow> addr \<Rightarrow> int) \<Rightarrow> (addr \<Rightarrow> int) \<Rightarrow> node_heap \<Rightarrow> kvlist \<times> node_heap" where
  \<comment> \<open>the comparator is \<^verbatim>\<open>avl_strcmp\<close>\<close>
  "KVLIST_INIT l avl_strcmp len h = (let (t, h) = AVL_TREE_INIT l avl_strcmp False null h in (\<lparr>kv_avl = t, get_len = len\<rparr>, h))"

definition key_at :: "kvlist \<Rightarrow> kv_store \<Rightarrow> addr \<Rightarrow> addr result" where
  \<comment> \<open>\<^verbatim>\<open>__ptr_to_kv(value)->avl.key\<close>\<close>
  "key_at kv st p = (if p = tree_head (kv_avl kv) then Inr (cmp_ptr (kv_avl kv)) else bindE (load st p) (\<lambda>n. Inr (avl_key (kv_node_avl n))))"

partial_function (option) kvlist_loop ::
  "kvlist \<Rightarrow> kv_store \<Rightarrow> (addr \<Rightarrow> 'a loop_body) \<Rightarrow> addr \<Rightarrow> addr \<Rightarrow> 'a \<times> node_heap \<Rightarrow> 'a outcome" where
  "kvlist_loop kv st body name p s =
     (if p = tree_head (kv_avl kv) then Some (Inr s)
      else case bindE (body name p s) (\<lambda>s. bindE (avl_next_element p (snd s)) (\<lambda>q. bindE (key_at kv st q) (\<lambda>k. Inr (k, q, s)))) of
        Inl f \<Rightarrow> Some (Inl f)
      | Inr (k, q, s) \<Rightarrow> kvlist_loop kv st body k q s)"

definition kvlist_for_each :: "kvlist \<Rightarrow> kv_store \<Rightarrow> (addr \<Rightarrow> 'a loop_body) \<Rightarrow> 'a \<times> node_heap \<Rightarrow> 'a outcome" where
  "kvlist_for_each kv st body s =
     (case bindE (avl_first_element (kv_avl kv) (snd s)) (\<lambda>p. bindE (key_at kv st p) (\<lambda>k. Inr (k, p))) of
        Inl f \<Rightarrow> Some (Inl f)
      | Inr (k, p) \<Rightarrow> kvlist_loop kv st body k p s)"

section \<open>Lists safe against removal\<close>

record safe_list =
  safe_links :: addr
  iterator :: addr

definition SAFE_LIST_INIT :: "addr \<Rightarrow> node_heap \<Rightarrow> safe_list \<times> node_heap" where
  "SAFE_LIST_INIT l h = (\<lparr>safe_links = l, iterator = null\<rparr>, h(l \<mapsto> \<lparr>next_el = l, prev_el = l\<rparr>))"

definition INIT_SAFE_LIST :: "safe_list \<Rightarrow> node_heap \<Rightarrow> (safe_list \<times> node_heap) result" where
  "INIT_SAFE_LIST s h = bindE (INIT_LIST_HEAD (safe_links s) h) (\<lambda>h. Inr (s\<lparr>iterator := null\<rparr>, h))"

definition safe_list_empty :: "safe_list \<Rightarrow> node_heap \<Rightarrow> bool result" where
  "safe_list_empty s h = list_empty (safe_links s) h"

section \<open>Task queues\<close>

record runqueue =
  tasks_active :: safe_list
  tasks_inactive :: safe_list
  running_tasks :: int
  max_running_tasks :: int
  stopped :: bool
  empty :: bool

definition RUNQUEUE_INIT :: "addr \<Rightarrow> addr \<Rightarrow> int \<Rightarrow> node_heap \<Rightarrow> runqueue \<times> node_heap" where
  "RUNQUEUE_INIT la li max_running h =
     (let (active, h) = SAFE_LIST_INIT la h;
          (inactive, h) = SAFE_LIST_INIT li h in
      (\<lparr>tasks_active = active, tasks_inactive = inactive, running_tasks = 0, max_running_tasks = max_running,
        stopped = False, empty = False\<rparr>, h))"

section \<open>Properties\<close>

lemma AVL_TREE_INIT_rep: "l \<noteq> null \<Longrightarrow> AVL_TREE_INIT l cmp dups ptr h = (t, h') \<Longrightarrow> list_rep h' (tree_head t) [] \<and> avl_is_empty t"
  by (auto simp: AVL_TREE_INIT_def list_rep_def circle_one avl_is_empty_def)

lemma key_at_first:
  assumes "\<And>p. p \<in> set ps \<Longrightarrow> \<exists>n. st p = Some n \<and> avl_key (kv_node_avl n) = ks p"
    and "tree_head (kv_avl kv) \<notin> set ps" "null \<notin> set ps"
  shows "\<exists>k. key_at kv st (first_of ps (tree_head (kv_avl kv))) = Inr k \<and> (ps \<noteq> [] \<longrightarrow> k = ks (hd ps))"
proof (cases ps)
  case Nil
  then show ?thesis by (simp add: key_at_def)
next
  case (Cons p qs)
  with assms(1) [of p] obtain n where "st p = Some n" "avl_key (kv_node_avl n) = ks p" by auto
  with Cons assms(2,3) show ?thesis by (auto simp: key_at_def load_valid)
qed

lemma kvlist_loop_visits:
  assumes "chain next_el prev_el h pr ps (tree_head (kv_avl kv))" "tree_head (kv_avl kv) \<notin> set ps" "null \<notin> set ps"
    and "\<And>p. p \<in> set ps \<Longrightarrow> \<exists>n. st p = Some n \<and> avl_key (kv_node_avl n) = ks p"
    and "ps \<noteq> [] \<Longrightarrow> k = ks (hd ps)"
  shows "kvlist_loop kv st (\<lambda>k p (a, h). Inr (f k p a, h)) k (first_of ps (tree_head (kv_avl kv))) (a, h) =
    Some (Inr (fold (\<lambda>p. f (ks p) p) ps a, h))"
  using assms
proof (induction ps arbitrary: pr a k)
  case Nil
  then show ?case by (simp add: kvlist_loop.simps)
next
  case (Cons p ps)
  let ?l = "tree_head (kv_avl kv)"
  have nx: "avl_next_element p h = Inr (first_of ps ?l)" and rest: "chain next_el prev_el h p ps ?l"
    using Cons.prems(1,3) by (auto simp: avl_next_element_def load_def split: option.splits)
  obtain k' where k': "key_at kv st (first_of ps ?l) = Inr k'" "ps \<noteq> [] \<Longrightarrow> k' = ks (hd ps)"
    using key_at_first [of ps st ks kv] Cons.prems(2-4) by auto
  have "kvlist_loop kv st (\<lambda>k p (a, h). Inr (f k p a, h)) k' (first_of ps ?l) (f (ks p) p a, h) =
      Some (Inr (fold (\<lambda>p. f (ks p) p) ps (f (ks p) p a), h))"
    using Cons.prems k'(2) by (intro Cons.IH [OF rest]) simp_all
  then show ?case using Cons.prems nx k'(1) by (subst kvlist_loop.simps) simp
qed

text \<open>
  Iterating over a versioned list or a string-keyed list ends and hands the body every node once, in
  the order of the tree; for a string-keyed list each node comes with its own key, although the loop reads one key too many at the end.
\<close>

theorem container_iteration:
  assumes "list_rep h (tree_head (kv_avl kv)) ps" "tree_head (vlist_avl vl) = tree_head (kv_avl kv)"
    and "\<forall>p \<in> set ps. \<exists>n. st p = Some n \<and> avl_key (kv_node_avl n) = ks p"
  shows "kvlist_for_each kv st (\<lambda>k p (a, h). Inr (f k p a, h)) (a, h) = Some (Inr (fold (\<lambda>p. f (ks p) p) ps a, h)) \<and>
    vlist_for_each_element vl (visit g) (b, h) = Some (Inr (fold g ps b, h))"
proof
  let ?l = "tree_head (kv_avl kv)"
  have c: "chain next_el prev_el h ?l ps ?l" "?l \<notin> set ps" "null \<notin> set ps"
    using list_rep_chains [of h ?l "[]" ps "[]"] assms(1) by simp_all
  obtain k where "key_at kv st (first_of ps ?l) = Inr k" "ps \<noteq> [] \<Longrightarrow> k = ks (hd ps)"
    using key_at_first [of ps st ks kv] assms(3) c(2,3) by auto
  with kvlist_loop_visits [OF c, of st ks k f a] assms(3) tree_ends(1) [OF assms(1)]
  show "kvlist_for_each kv st (\<lambda>k p (a, h). Inr (f k p a, h)) (a, h) = Some (Inr (fold (\<lambda>p. f (ks p) p) ps a, h))"
    by (simp add: kvlist_for_each_def)
  show "vlist_for_each_element vl (visit g) (b, h) = Some (Inr (fold g ps b, h))"
    using avl_range_all(1) [of h "vlist_avl vl" ps g b] assms(1,2) by (simp add: vlist_for_each_element_def)
qed

definition kv_example :: kvlist where
  "kv_example = \<lparr>kv_avl = \<lparr>tree_head = 1, root = 10, tree_count = 2, allow_dups = False, comp = \<lambda>a b. int a - int b, cmp_ptr = null\<rparr>, get_len = \<lambda>_. 0\<rparr>"

definition kv_node_example :: "addr \<Rightarrow> kvlist_node" where
  "kv_node_example k = \<lparr>kv_node_avl = \<lparr>parent = null, left = null, right = null, avl_key = k, balance = 0, leader = True\<rparr>, kv_data = []\<rparr>"

theorem container_iteration_witness:
  "kvlist_for_each kv_example [10 \<mapsto> kv_node_example 100, 20 \<mapsto> kv_node_example 200] (\<lambda>k p (a, h). Inr (a @ [(k, p)], h)) ([], list_example) =
     Some (Inr ([(100, 10), (200, 20)], list_example)) \<and>
   vlist_for_each_element \<lparr>vlist_avl = tree_example, keep_old = False, no_delete = False, version = 1\<rparr> (visit (\<lambda>p a. a + p)) (0, list_example) =
     Some (Inr (30, list_example))"
proof -
  have "list_rep list_example (tree_head (kv_avl kv_example)) [10, 20]" using list_example_rep(1) by (simp add: kv_example_def)
  from container_iteration [OF this, of "\<lparr>vlist_avl = tree_example, keep_old = False, no_delete = False, version = 1\<rparr>"
      "[10 \<mapsto> kv_node_example 100, 20 \<mapsto> kv_node_example 200]" "\<lambda>p. 10 * p" "\<lambda>k p a. a @ [(k, p)]" "[]" "\<lambda>p a. a + p" 0]
  show ?thesis by (simp add: kv_example_def kv_node_example_def tree_example_def)
qed

end
