(* ===== verification/Byte_Order.thy ===== *)
theory Byte_Order
  imports Prelude
begin

unbundle bit_operations_syntax

text \<open>
  libubox's \<^verbatim>\<open>utils.h\<close>: the byte-order conversions for both kinds of host, the base64 buffer sizes
  (with that of \<^verbatim>\<open>uclient-utils.h\<close>) and the order and size of a circular buffer. A word in memory is the list of its bytes in the
  order of the host.
\<close>

section \<open>Byte order\<close>

datatype byte_order = Little | Big

definition constant_swap16 :: "u16 \<Rightarrow> u16" where
  "constant_swap16 x = push_bit 8 (x AND 0x00ff) OR drop_bit 8 (x AND 0xff00)"

definition constant_swap32 :: "u32 \<Rightarrow> u32" where
  "constant_swap32 x = push_bit 24 (x AND 0x000000ff) OR push_bit 8 (x AND 0x0000ff00)
     OR drop_bit 8 (x AND 0x00ff0000) OR drop_bit 24 (x AND 0xff000000)"

definition constant_swap64 :: "u64 \<Rightarrow> u64" where
  "constant_swap64 x = push_bit 56 (x AND 0x00000000000000ff) OR push_bit 40 (x AND 0x000000000000ff00)
     OR push_bit 24 (x AND 0x0000000000ff0000) OR push_bit 8 (x AND 0x00000000ff000000)
     OR drop_bit 8 (x AND 0x000000ff00000000) OR drop_bit 24 (x AND 0x0000ff0000000000)
     OR drop_bit 40 (x AND 0x00ff000000000000) OR drop_bit 56 (x AND 0xff00000000000000)"

definition cpu_to_be16 :: "byte_order \<Rightarrow> u16 \<Rightarrow> u16" where
  "cpu_to_be16 bo x = (case bo of Little \<Rightarrow> constant_swap16 x | Big \<Rightarrow> x)"

definition cpu_to_be32 :: "byte_order \<Rightarrow> u32 \<Rightarrow> u32" where
  "cpu_to_be32 bo x = (case bo of Little \<Rightarrow> constant_swap32 x | Big \<Rightarrow> x)"

definition cpu_to_be64 :: "byte_order \<Rightarrow> u64 \<Rightarrow> u64" where
  "cpu_to_be64 bo x = (case bo of Little \<Rightarrow> constant_swap64 x | Big \<Rightarrow> x)"

definition be16_to_cpu :: "byte_order \<Rightarrow> u16 \<Rightarrow> u16" where
  "be16_to_cpu bo x = (case bo of Little \<Rightarrow> constant_swap16 x | Big \<Rightarrow> x)"

definition be32_to_cpu :: "byte_order \<Rightarrow> u32 \<Rightarrow> u32" where
  "be32_to_cpu bo x = (case bo of Little \<Rightarrow> constant_swap32 x | Big \<Rightarrow> x)"

definition be64_to_cpu :: "byte_order \<Rightarrow> u64 \<Rightarrow> u64" where
  "be64_to_cpu bo x = (case bo of Little \<Rightarrow> constant_swap64 x | Big \<Rightarrow> x)"

definition cpu_to_le16 :: "byte_order \<Rightarrow> u16 \<Rightarrow> u16" where
  "cpu_to_le16 bo x = (case bo of Little \<Rightarrow> x | Big \<Rightarrow> constant_swap16 x)"

definition cpu_to_le32 :: "byte_order \<Rightarrow> u32 \<Rightarrow> u32" where
  "cpu_to_le32 bo x = (case bo of Little \<Rightarrow> x | Big \<Rightarrow> constant_swap32 x)"

definition cpu_to_le64 :: "byte_order \<Rightarrow> u64 \<Rightarrow> u64" where
  "cpu_to_le64 bo x = (case bo of Little \<Rightarrow> x | Big \<Rightarrow> constant_swap64 x)"

definition le16_to_cpu :: "byte_order \<Rightarrow> u16 \<Rightarrow> u16" where
  "le16_to_cpu bo x = (case bo of Little \<Rightarrow> x | Big \<Rightarrow> constant_swap16 x)"

definition le32_to_cpu :: "byte_order \<Rightarrow> u32 \<Rightarrow> u32" where
  "le32_to_cpu bo x = (case bo of Little \<Rightarrow> x | Big \<Rightarrow> constant_swap32 x)"

definition le64_to_cpu :: "byte_order \<Rightarrow> u64 \<Rightarrow> u64" where
  "le64_to_cpu bo x = (case bo of Little \<Rightarrow> x | Big \<Rightarrow> constant_swap64 x)"

section \<open>Words in memory\<close>

definition byte :: "nat \<Rightarrow> 'a::len word \<Rightarrow> u8" where
  "byte i x = ucast (drop_bit (8 * i) x)"

definition le_bytes :: "nat \<Rightarrow> 'a::len word \<Rightarrow> u8 list" where
  "le_bytes n x = map (\<lambda>i. byte i x) [0..<n]"

definition be_bytes :: "nat \<Rightarrow> 'a::len word \<Rightarrow> u8 list" where
  "be_bytes n x = rev (le_bytes n x)"

definition mem_bytes :: "byte_order \<Rightarrow> nat \<Rightarrow> 'a::len word \<Rightarrow> u8 list" where
  "mem_bytes bo n x = (case bo of Little \<Rightarrow> le_bytes n x | Big \<Rightarrow> be_bytes n x)"

primrec le_word :: "u8 list \<Rightarrow> 'a::len word" where
  "le_word [] = 0"
| "le_word (b # bs) = ucast b OR push_bit 8 (le_word bs)"

definition mem_word :: "byte_order \<Rightarrow> u8 list \<Rightarrow> 'a::len word" where
  "mem_word bo bs = le_word (case bo of Little \<Rightarrow> bs | Big \<Rightarrow> rev bs)"

section \<open>Sizes\<close>

definition ARRAY_SIZE :: "'v list \<Rightarrow> nat" where
  "ARRAY_SIZE arr = length arr"

definition B64_ENCODE_LEN :: "u64 \<Rightarrow> u64" where
  "B64_ENCODE_LEN n = ((n + 2) div 3) * 4 + 1"

definition B64_DECODE_LEN :: "u64 \<Rightarrow> u64" where
  "B64_DECODE_LEN n = (n div 4) * 3 + 1"

text \<open>
  The size that \<^verbatim>\<open>uclient-utils.h\<close> computes in \<^verbatim>\<open>int\<close>, without room for the terminator; division truncates
  towards zero, and a result outside \<^verbatim>\<open>int\<close> is an overflow.
\<close>

definition base64_len :: "int \<Rightarrow> int result" where
  "base64_len len =
     (if len + 2 \<ge> 2 ^ 31 then Inl SignedOverflow
      else let q = (if len + 2 < 0 then - (- (len + 2) div 3) else (len + 2) div 3) in
        if 4 * q < - (2 ^ 31) \<or> 4 * q \<ge> 2 ^ 31 then Inl SignedOverflow else Inr (4 * q))"

lemma base64_len_exact:
  assumes "0 \<le> len" "len < 2 ^ 31"
  shows "base64_len len = (if len < 1610612734 then Inr (4 * ((len + 2) div 3)) else Inl SignedOverflow)"
proof -
  have "4 * ((len + 2) div 3) < 2 ^ 31 \<longleftrightarrow> len < 1610612734"
    using mult_div_mod_eq [of 3 "len + 2"] pos_mod_bound [of 3 "len + 2"] pos_mod_sign [of 3 "len + 2"] by simp linarith
  with assms show ?thesis by (auto simp: base64_len_def Let_def)
qed

text \<open>The two headers agree: the macro counts the terminator.\<close>

lemma base64_sizes_agree:
  assumes "0 \<le> len" "base64_len len = Inr n"
  shows "uint (B64_ENCODE_LEN (of_int len)) = n + 1"
proof -
  have len: "len < 1610612734" "n = 4 * ((len + 2) div 3)"
    using assms base64_len_exact [of len] by (auto simp: base64_len_def split: if_splits)
  have "uint (of_int len + 2 :: u64) = len + 2"
    using assms(1) len(1) by (simp add: uint_word_ariths uint_word_of_int take_bit_int_eq_self)
  then have "uint ((of_int len + 2) div 3 :: u64) = (len + 2) div 3" by (simp add: uint_div)
  then show ?thesis using assms(1) len by (simp add: B64_ENCODE_LEN_def uint_word_ariths take_bit_int_eq_self)
qed

fun bit_length :: "nat \<Rightarrow> nat" where
  "bit_length n = (if n = 0 then 0 else Suc (bit_length (n div 2)))"

declare bit_length.simps [simp del]

text \<open>\<^verbatim>\<open>__builtin_clz\<close> of 0 is undefined.\<close>

definition builtin_clz :: "u32 \<Rightarrow> nat option" where
  "builtin_clz x = (if x = 0 then None else Some (32 - bit_length (unat x)))"

definition cbuf_order :: "u32 \<Rightarrow> nat option" where
  "cbuf_order x = map_option (\<lambda>z. 32 - z) (builtin_clz (x - 1))"

definition cbuf_size :: "u64 \<Rightarrow> nat \<Rightarrow> u64" where
  "cbuf_size page_size order = (let ret = push_bit order 1 in if ret < page_size then page_size else ret)"

section \<open>Lemmas on bytes\<close>

lemma bit_byte: "bit (byte i x) j \<longleftrightarrow> j < 8 \<and> bit x (8 * i + j)"
  by (auto simp: byte_def bit_unsigned_iff bit_drop_bit_eq)

lemma bit_swap16: "bit (constant_swap16 x) n \<longleftrightarrow> n < 16 \<and> bit x (8 * (1 - n div 8) + n mod 8)"
proof (cases "n < 16")
  case True
  then have "n \<in> {0..<16}" by simp
  then show ?thesis
    by (simp add: atLeastLessThan_nat_numeral constant_swap16_def bit_simps, elim disjE; simp add: bit_simps flip: numeral_2_eq_2)
qed (use bit_imp_le_length in \<open>force\<close>)

lemma bit_swap32: "bit (constant_swap32 x) n \<longleftrightarrow> n < 32 \<and> bit x (8 * (3 - n div 8) + n mod 8)"
proof (cases "n < 32")
  case True
  then have "n \<in> {0..<32}" by simp
  then show ?thesis
    by (simp add: atLeastLessThan_nat_numeral constant_swap32_def bit_simps, elim disjE; simp add: bit_simps flip: numeral_2_eq_2)
qed (use bit_imp_le_length in \<open>force\<close>)

lemma bit_swap64: "bit (constant_swap64 x) n \<longleftrightarrow> n < 64 \<and> bit x (8 * (7 - n div 8) + n mod 8)"
proof (cases "n < 64")
  case True
  then have "n \<in> {0..<64}" by simp
  then show ?thesis
    by (simp add: atLeastLessThan_nat_numeral constant_swap64_def bit_simps, elim disjE; simp add: bit_simps flip: numeral_2_eq_2)
qed (use bit_imp_le_length in \<open>force\<close>)

lemma byte_swap:
  "i < 2 \<Longrightarrow> byte i (constant_swap16 x) = byte (1 - i) x"
  "j < 4 \<Longrightarrow> byte j (constant_swap32 y) = byte (3 - j) y"
  "k < 8 \<Longrightarrow> byte k (constant_swap64 z) = byte (7 - k) z"
  by (rule bit_eqI; auto simp: bit_byte bit_swap16 bit_swap32 bit_swap64)+

lemma swap_involution:
  "constant_swap16 (constant_swap16 x) = x" "constant_swap32 (constant_swap32 y) = y" "constant_swap64 (constant_swap64 z) = z"
proof -
  have *: "8 * (k - (8 * (k - n div 8) + n mod 8) div 8) + (8 * (k - n div 8) + n mod 8) mod 8 = n"
    if "n div 8 \<le> k" for n k :: nat using that by simp
  show "constant_swap16 (constant_swap16 x) = x"
    using * [of _ 1] by (intro bit_eqI) (auto simp: bit_swap16)
  show "constant_swap32 (constant_swap32 y) = y"
    using * [of _ 3] by (intro bit_eqI) (auto simp: bit_swap32)
  show "constant_swap64 (constant_swap64 z) = z"
    using * [of _ 7] by (intro bit_eqI) (auto simp: bit_swap64)
qed

lemma be_bytes_swap:
  "le_bytes 2 (constant_swap16 x) = be_bytes 2 x" "le_bytes 4 (constant_swap32 y) = be_bytes 4 y"
  "le_bytes 8 (constant_swap64 z) = be_bytes 8 z"
  by (simp_all add: le_bytes_def be_bytes_def byte_swap atLeastLessThan_nat_numeral numeral_eq_Suc)

lemma le_bytes_of_swap:
  "be_bytes 2 (constant_swap16 x) = le_bytes 2 x" "be_bytes 4 (constant_swap32 y) = le_bytes 4 y"
  "be_bytes 8 (constant_swap64 z) = le_bytes 8 z"
  by (simp_all add: be_bytes_def be_bytes_swap)

lemma length_bytes [simp]: "length (le_bytes n x) = n" "length (be_bytes n x) = n" "length (mem_bytes bo n x) = n"
  by (cases bo; simp add: le_bytes_def be_bytes_def mem_bytes_def)+

lemma bit_le_word:
  "bit (le_word bs :: 'a::len word) n \<longleftrightarrow> n < LENGTH('a) \<and> n div 8 < length bs \<and> bit (bs ! (n div 8)) (n mod 8)"
proof (induction bs arbitrary: n)
  case Nil
  then show ?case by simp
next
  case (Cons b bs)
  show ?case
  proof (cases "n < 8")
    case True
    then show ?thesis by (auto simp: bit_simps Cons.IH)
  next
    case False
    then obtain m where "n = m + 8" by (metis le_add_diff_inverse2 not_less)
    moreover have "(m + 8) div 8 = Suc (m div 8)" by simp
    ultimately show ?thesis by (auto simp: bit_simps Cons.IH dest: bit_imp_le_length)
  qed
qed

lemma le_word_le_bytes: "LENGTH('a) = 8 * n \<Longrightarrow> le_word (le_bytes n x) = (x :: 'a::len word)"
  by (rule bit_eqI) (auto simp: bit_le_word le_bytes_def bit_byte)

lemma mem_word_bytes: "LENGTH('a) = 8 * n \<Longrightarrow> mem_word bo (mem_bytes bo n x) = (x :: 'a::len word)"
  by (cases bo) (simp_all add: mem_word_def mem_bytes_def be_bytes_def le_word_le_bytes)

lemmas order_defs = cpu_to_be16_def cpu_to_be32_def cpu_to_be64_def be16_to_cpu_def be32_to_cpu_def be64_to_cpu_def
  cpu_to_le16_def cpu_to_le32_def cpu_to_le64_def le16_to_cpu_def le32_to_cpu_def le64_to_cpu_def

lemma mem_bytes_be:
  "mem_bytes bo 2 (cpu_to_be16 bo x) = be_bytes 2 x" "mem_bytes bo 4 (cpu_to_be32 bo y) = be_bytes 4 y"
  "mem_bytes bo 8 (cpu_to_be64 bo z) = be_bytes 8 z"
  by (cases bo; simp add: order_defs mem_bytes_def be_bytes_swap)+

lemma be_to_cpu_inverse [simp]:
  "be16_to_cpu bo (cpu_to_be16 bo x) = x" "be32_to_cpu bo (cpu_to_be32 bo y) = y" "be64_to_cpu bo (cpu_to_be64 bo z) = z"
  by (cases bo; simp add: order_defs swap_involution)+

lemma be_word:
  "be16_to_cpu bo (mem_word bo (be_bytes 2 x)) = x" "be32_to_cpu bo (mem_word bo (be_bytes 4 y)) = y"
  by (simp_all flip: mem_bytes_be [of bo] add: mem_word_bytes)

text \<open>
  C34. Byte order: on either kind of host, a value converted for the network lies in memory with its most
  significant byte first (least significant for the little-endian conversions), and converting what
  is read from memory gives the value back. Messages are therefore the same bytes on every host.
\<close>

theorem byte_order_portable:
  "mem_bytes bo 2 (cpu_to_be16 bo x) = be_bytes 2 x \<and> be16_to_cpu bo (mem_word bo (be_bytes 2 x)) = x \<and>
   mem_bytes bo 4 (cpu_to_be32 bo y) = be_bytes 4 y \<and> be32_to_cpu bo (mem_word bo (be_bytes 4 y)) = y \<and>
   mem_bytes bo 8 (cpu_to_be64 bo z) = be_bytes 8 z \<and> be64_to_cpu bo (mem_word bo (be_bytes 8 z)) = z \<and>
   mem_bytes bo 2 (cpu_to_le16 bo x) = le_bytes 2 x \<and> le16_to_cpu bo (mem_word bo (le_bytes 2 x)) = x \<and>
   mem_bytes bo 4 (cpu_to_le32 bo y) = le_bytes 4 y \<and> le32_to_cpu bo (mem_word bo (le_bytes 4 y)) = y \<and>
   mem_bytes bo 8 (cpu_to_le64 bo z) = le_bytes 8 z \<and> le64_to_cpu bo (mem_word bo (le_bytes 8 z)) = z"
proof -
  have le: "mem_bytes bo 2 (cpu_to_le16 bo x) = le_bytes 2 x" "mem_bytes bo 4 (cpu_to_le32 bo y) = le_bytes 4 y"
    "mem_bytes bo 8 (cpu_to_le64 bo z) = le_bytes 8 z"
    by (cases bo; simp add: order_defs mem_bytes_def le_bytes_of_swap)+
  moreover have "le16_to_cpu bo (mem_word bo (mem_bytes bo 2 (cpu_to_le16 bo x))) = x"
    "le32_to_cpu bo (mem_word bo (mem_bytes bo 4 (cpu_to_le32 bo y))) = y"
    "le64_to_cpu bo (mem_word bo (mem_bytes bo 8 (cpu_to_le64 bo z))) = z"
    by (simp_all add: mem_word_bytes) (cases bo; simp add: order_defs swap_involution)+
  moreover have "be64_to_cpu bo (mem_word bo (mem_bytes bo 8 (cpu_to_be64 bo z))) = z" by (simp add: mem_word_bytes)
  ultimately show ?thesis using mem_bytes_be [of bo] be_word [of bo] by simp
qed

section \<open>Circular buffer sizes\<close>

lemma bit_length_bounds: "n < 2 ^ bit_length n \<and> (0 < n \<longrightarrow> 2 ^ (bit_length n - 1) \<le> n)"
proof (induction n rule: bit_length.induct)
  case (1 n)
  show ?case
  proof (cases "n = 0")
    case True
    then show ?thesis by (simp add: bit_length.simps)
  next
    case False
    with 1 have IH: "n div 2 < 2 ^ bit_length (n div 2)" "0 < n div 2 \<longrightarrow> 2 ^ (bit_length (n div 2) - 1) \<le> n div 2" by auto
    have "n < 2 ^ Suc (bit_length (n div 2))" using IH(1) by simp
    moreover have "2 ^ bit_length (n div 2) \<le> n"
    proof (cases "n div 2 = 0")
      case True
      with False show ?thesis by (simp add: bit_length.simps)
    next
      case nz: False
      then have "bit_length (n div 2) = Suc (bit_length (n div 2) - 1)" by (subst (1 2) bit_length.simps) simp
      then have "(2::nat) ^ bit_length (n div 2) = 2 * 2 ^ (bit_length (n div 2) - 1)" by (metis power_Suc)
      with IH(2) nz show ?thesis by simp
    qed
    moreover have "bit_length n = Suc (bit_length (n div 2))" using False by (subst bit_length.simps) simp
    ultimately show ?thesis by simp
  qed
qed

lemma bit_length_le: "n < 2 ^ m \<Longrightarrow> bit_length n \<le> m"
proof (cases "n = 0")
  case False
  assume "n < 2 ^ m"
  with False bit_length_bounds [of n] have "2 ^ (bit_length n - 1) < (2::nat) ^ m" by linarith
  then show ?thesis by simp
qed (simp add: bit_length.simps)

lemma cbuf_order_eq: "x \<noteq> 1 \<Longrightarrow> cbuf_order x = Some (bit_length (unat (x - 1)))"
  using bit_length_le [of "unat (x - 1)" 32] unsigned_less [of "x - 1", where 'a = nat]
  by (simp add: cbuf_order_def builtin_clz_def)

text \<open>
  The order of a circular buffer of at least two bytes is the least power of two that holds it, and
  the size computed from an order below 64 is at least the page size, that power of two, and so the
  size asked for. A size of 1 reaches the undefined case of the leading-zero count; a size of 0 wraps
  around to order 32.
\<close>

theorem cbuf_exact:
  "cbuf_order 0 = Some 32 \<and> cbuf_order 1 = None \<and>
   (2 \<le> unat x \<longrightarrow> (\<exists>n. cbuf_order x = Some n \<and> n \<le> 32 \<and> unat x \<le> 2 ^ n \<and> (\<forall>m. unat x \<le> 2 ^ m \<longrightarrow> n \<le> m) \<and>
      unat x \<le> unat (cbuf_size page n) \<and> page \<le> cbuf_size page n))"
proof (intro conjI impI)
  show "cbuf_order 1 = None" by (simp add: cbuf_order_def builtin_clz_def)
  have "bit_length (2 ^ 32 - 1) = 32"
    using bit_length_bounds [of "2 ^ 32 - 1"] bit_length_le [of "2 ^ 32 - 1" 32]
      power_le_imp_le_exp [of "2 :: nat" 32 "bit_length (2 ^ 32 - 1)"] by simp
  then show "cbuf_order 0 = Some 32" by (simp add: cbuf_order_eq unsigned_minus_1_eq_mask mask_eq_exp_minus_1)
  assume "2 \<le> unat x"
  then have "x \<noteq> 0" "x \<noteq> 1" by auto
  then have x: "x \<noteq> 1" "unat (x - 1) = unat x - 1" by (simp_all add: unat_minus_one)
  let ?n = "bit_length (unat (x - 1))"
  have n: "unat x \<le> 2 ^ ?n" using bit_length_bounds [of "unat (x - 1)"] x by linarith
  have least: "?n \<le> m" if "unat x \<le> 2 ^ m" for m
    using that x(2) \<open>2 \<le> unat x\<close> by (intro bit_length_le) simp
  have "?n \<le> 32" using least [of 32] unsigned_less [of x, where 'a = nat] by simp
  then have "unat (push_bit ?n (1 :: u64)) = 2 ^ ?n"
    using unsigned_of_nat [of "2 ^ ?n", where 'b = 64 and 'a = nat] by simp
  then have "2 ^ ?n \<le> unat (cbuf_size page ?n)" "page \<le> cbuf_size page ?n"
    by (auto simp: cbuf_size_def Let_def word_less_nat_alt word_le_nat_alt)
  with x n least \<open>?n \<le> 32\<close> show "\<exists>n. cbuf_order x = Some n \<and> n \<le> 32 \<and> unat x \<le> 2 ^ n \<and> (\<forall>m. unat x \<le> 2 ^ m \<longrightarrow> n \<le> m) \<and>
      unat x \<le> unat (cbuf_size page n) \<and> page \<le> cbuf_size page n"
    by (intro exI [of _ ?n]) (auto simp: cbuf_order_eq)
qed

theorem cbuf_exact_witness:
  "\<exists>n. cbuf_order 5000 = Some n \<and> n = 13 \<and> 5000 \<le> unat (cbuf_size 4096 n)"
proof -
  obtain n where n: "cbuf_order 5000 = Some n" "5000 \<le> (2::nat) ^ n" "\<forall>m. 5000 \<le> (2::nat) ^ m \<longrightarrow> n \<le> m" "5000 \<le> unat (cbuf_size 4096 n)"
    using cbuf_exact [of 5000 4096] by auto
  have "n \<le> 13" using n(3) by simp
  moreover have "\<not> n \<le> 12"
  proof
    assume "n \<le> 12"
    then have "(2::nat) ^ n \<le> 2 ^ 12" by (rule power_increasing) simp
    with n(2) show False by simp
  qed
  ultimately show ?thesis using n(1,4) by (intro exI [of _ n]) simp
qed

end
