(* ===== verification/Blob.thy ===== *)
theory Blob
  imports Byte_Order
begin

text \<open>
  libubox's tagged binary data: the attributes of \<^verbatim>\<open>blob.h\<close> and the named fields of \<^verbatim>\<open>blobmsg.h\<close>, and the
  formatting wrappers of \<^verbatim>\<open>blobmsg_json.h\<close>. The
  memory is a list of bytes, an attribute pointer a position in it, and every read outside the list
  is a fault. The host's byte order is an argument. Functions that are only declared here
  (\<^verbatim>\<open>blob_put\<close>, \<^verbatim>\<open>blobmsg_add_field\<close>, \<^verbatim>\<open>blob_buf_init\<close>, \<^verbatim>\<open>blob_nest_end\<close>) are arguments of the
  definitions that call them.
\<close>

section \<open>Attributes\<close>

datatype blob_attr_type = BLOB_ATTR_UNSPEC | BLOB_ATTR_NESTED | BLOB_ATTR_BINARY | BLOB_ATTR_STRING
  | BLOB_ATTR_INT8 | BLOB_ATTR_INT16 | BLOB_ATTR_INT32 | BLOB_ATTR_INT64 | BLOB_ATTR_DOUBLE | BLOB_ATTR_LAST

definition BLOB_ATTR_ID_MASK :: u32 where "BLOB_ATTR_ID_MASK = 0x7f000000"
definition BLOB_ATTR_ID_SHIFT :: nat where "BLOB_ATTR_ID_SHIFT = 24"
definition BLOB_ATTR_LEN_MASK :: u32 where "BLOB_ATTR_LEN_MASK = 0x00ffffff"
definition BLOB_ATTR_ALIGN :: u32 where "BLOB_ATTR_ALIGN = 4"
definition BLOB_ATTR_EXTENDED :: u32 where "BLOB_ATTR_EXTENDED = 0x80000000"

definition read_bytes :: "u8 list \<Rightarrow> nat \<Rightarrow> nat \<Rightarrow> u8 list result" where
  "read_bytes mem p n = (if p + n \<le> length mem then Inr (take n (drop p mem)) else Inl OutOfBounds)"

definition read_word :: "byte_order \<Rightarrow> nat \<Rightarrow> u8 list \<Rightarrow> nat \<Rightarrow> 'a::len word result" where
  "read_word bo n mem p = bindE (read_bytes mem p n) (\<lambda>bs. Inr (mem_word bo bs))"

definition id_len :: "byte_order \<Rightarrow> u8 list \<Rightarrow> nat \<Rightarrow> u32 result" where
  "id_len bo mem attr = read_word bo 4 mem attr"

definition blob_data :: "nat \<Rightarrow> nat" where
  "blob_data attr = attr + 4"

definition blob_id :: "byte_order \<Rightarrow> u8 list \<Rightarrow> nat \<Rightarrow> u32 result" where
  "blob_id bo mem attr =
     bindE (id_len bo mem attr) (\<lambda>w. Inr (drop_bit BLOB_ATTR_ID_SHIFT (be32_to_cpu bo w AND BLOB_ATTR_ID_MASK)))"

definition blob_is_extended :: "byte_order \<Rightarrow> u8 list \<Rightarrow> nat \<Rightarrow> bool result" where
  "blob_is_extended bo mem attr =
     bindE (id_len bo mem attr) (\<lambda>w. Inr (w AND cpu_to_be32 bo BLOB_ATTR_EXTENDED \<noteq> 0))"

definition blob_len :: "byte_order \<Rightarrow> u8 list \<Rightarrow> nat \<Rightarrow> u32 result" where
  "blob_len bo mem attr =
     bindE (id_len bo mem attr) (\<lambda>w. Inr ((be32_to_cpu bo w AND BLOB_ATTR_LEN_MASK) - 4))"

definition blob_raw_len :: "byte_order \<Rightarrow> u8 list \<Rightarrow> nat \<Rightarrow> u32 result" where
  "blob_raw_len bo mem attr = bindE (blob_len bo mem attr) (\<lambda>n. Inr (n + 4))"

definition blob_pad_len :: "byte_order \<Rightarrow> u8 list \<Rightarrow> nat \<Rightarrow> u32 result" where
  "blob_pad_len bo mem attr =
     bindE (blob_raw_len bo mem attr) (\<lambda>len. Inr ((len + BLOB_ATTR_ALIGN - 1) AND NOT (BLOB_ATTR_ALIGN - 1)))"

definition blob_get_u8 :: "u8 list \<Rightarrow> nat \<Rightarrow> u8 result" where
  "blob_get_u8 mem attr = bindE (read_bytes mem (blob_data attr) 1) (\<lambda>bs. Inr (hd bs))"

definition blob_get_u16 :: "byte_order \<Rightarrow> u8 list \<Rightarrow> nat \<Rightarrow> u16 result" where
  "blob_get_u16 bo mem attr = bindE (read_word bo 2 mem (blob_data attr)) (\<lambda>tmp. Inr (be16_to_cpu bo tmp))"

definition blob_get_u32 :: "byte_order \<Rightarrow> u8 list \<Rightarrow> nat \<Rightarrow> u32 result" where
  "blob_get_u32 bo mem attr = bindE (read_word bo 4 mem (blob_data attr)) (\<lambda>tmp. Inr (be32_to_cpu bo tmp))"

definition two_words :: "byte_order \<Rightarrow> u8 list \<Rightarrow> nat \<Rightarrow> u64 result" where
  \<comment> \<open>the two halves read as 32-bit words, high half first\<close>
  "two_words bo mem p =
     bindE (read_word bo 4 mem p) (\<lambda>w0.
     bindE (read_word bo 4 mem (p + 4)) (\<lambda>w1.
     Inr (push_bit 32 (ucast (be32_to_cpu bo w0)) OR ucast (be32_to_cpu bo w1))))"

definition blob_get_u64 :: "byte_order \<Rightarrow> u8 list \<Rightarrow> nat \<Rightarrow> u64 result" where
  "blob_get_u64 bo mem attr = two_words bo mem (blob_data attr)"

definition blob_get_int8 :: "u8 list \<Rightarrow> nat \<Rightarrow> int result" where
  "blob_get_int8 mem attr = bindE (blob_get_u8 mem attr) (\<lambda>w. Inr (sint w))"

definition blob_get_int16 :: "byte_order \<Rightarrow> u8 list \<Rightarrow> nat \<Rightarrow> int result" where
  "blob_get_int16 bo mem attr = bindE (blob_get_u16 bo mem attr) (\<lambda>w. Inr (sint w))"

definition blob_get_int32 :: "byte_order \<Rightarrow> u8 list \<Rightarrow> nat \<Rightarrow> int result" where
  "blob_get_int32 bo mem attr = bindE (blob_get_u32 bo mem attr) (\<lambda>w. Inr (sint w))"

definition blob_get_int64 :: "byte_order \<Rightarrow> u8 list \<Rightarrow> nat \<Rightarrow> int result" where
  "blob_get_int64 bo mem attr = bindE (blob_get_u64 bo mem attr) (\<lambda>w. Inr (sint w))"

definition blob_get_string :: "nat \<Rightarrow> nat" where
  "blob_get_string attr = blob_data attr"

definition blob_next :: "byte_order \<Rightarrow> u8 list \<Rightarrow> nat \<Rightarrow> nat result" where
  "blob_next bo mem attr = bindE (blob_pad_len bo mem attr) (\<lambda>n. Inr (attr + unat n))"

text \<open>The characters of a C string, up to its terminator.\<close>

function c_string :: "u8 list \<Rightarrow> nat \<Rightarrow> u8 list result" where
  "c_string mem p = (if p < length mem then
     if mem ! p = 0 then Inr [] else bindE (c_string mem (p + 1)) (\<lambda>s. Inr (mem ! p # s))
   else Inl OutOfBounds)"
  by auto
termination by (relation "measure (\<lambda>(mem, p). length mem - p)") auto

section \<open>Writing attributes\<close>

definition blob_put_string :: "('b \<Rightarrow> u32 \<Rightarrow> u8 list \<Rightarrow> 'r) \<Rightarrow> 'b \<Rightarrow> u32 \<Rightarrow> u8 list \<Rightarrow> 'r" where
  \<comment> \<open>\<^verbatim>\<open>strlen + 1\<close> bytes: the characters and the terminator\<close>
  "blob_put_string blob_put buf ident str = blob_put buf ident (str @ [0])"

definition blob_put_u8 :: "('b \<Rightarrow> u32 \<Rightarrow> u8 list \<Rightarrow> 'r) \<Rightarrow> 'b \<Rightarrow> u32 \<Rightarrow> u8 \<Rightarrow> 'r" where
  "blob_put_u8 blob_put buf ident val = blob_put buf ident [val]"

definition blob_put_u16 :: "byte_order \<Rightarrow> ('b \<Rightarrow> u32 \<Rightarrow> u8 list \<Rightarrow> 'r) \<Rightarrow> 'b \<Rightarrow> u32 \<Rightarrow> u16 \<Rightarrow> 'r" where
  "blob_put_u16 bo blob_put buf ident val = blob_put buf ident (mem_bytes bo 2 (cpu_to_be16 bo val))"

definition blob_put_u32 :: "byte_order \<Rightarrow> ('b \<Rightarrow> u32 \<Rightarrow> u8 list \<Rightarrow> 'r) \<Rightarrow> 'b \<Rightarrow> u32 \<Rightarrow> u32 \<Rightarrow> 'r" where
  "blob_put_u32 bo blob_put buf ident val = blob_put buf ident (mem_bytes bo 4 (cpu_to_be32 bo val))"

definition blob_put_u64 :: "byte_order \<Rightarrow> ('b \<Rightarrow> u32 \<Rightarrow> u8 list \<Rightarrow> 'r) \<Rightarrow> 'b \<Rightarrow> u32 \<Rightarrow> u64 \<Rightarrow> 'r" where
  "blob_put_u64 bo blob_put buf ident val = blob_put buf ident (mem_bytes bo 8 (cpu_to_be64 bo val))"

section \<open>Iteration\<close>

text \<open>
  The loop of the iteration macros, as the list of positions it visits. The remaining length is an
  unsigned int; the test on it comes before the header is read.
\<close>

function blob_walk :: "byte_order \<Rightarrow> u8 list \<Rightarrow> nat \<Rightarrow> u32 \<Rightarrow> nat list result" where
  "blob_walk bo mem pos rem =
     (if rem \<ge> 4 then
        bindE (blob_pad_len bo mem pos) (\<lambda>n.
          if n \<le> rem \<and> n \<ge> 4
          then bindE (blob_walk bo mem (pos + unat n) (rem - n)) (\<lambda>ps. Inr (pos # ps))
          else Inr [])
      else Inr [])"
  by auto
termination
proof (relation "measure (\<lambda>(bo, mem, pos, rem). unat rem)")
  fix bo mem pos and rem n :: u32
  assume "n \<le> rem \<and> n \<ge> 4"
  then have "unat (rem - n) < unat rem" by (auto simp: word_le_nat_alt unat_sub)
  then show "((bo, mem, pos + unat n, rem - n), bo, mem, pos, rem) \<in> measure (\<lambda>(bo, mem, pos, rem). unat rem)" by simp
qed simp

declare blob_walk.simps [simp del] c_string.simps [simp del]

definition blob_for_each_attr :: "byte_order \<Rightarrow> u8 list \<Rightarrow> nat option \<Rightarrow> nat list result" where
  "blob_for_each_attr bo mem attr =
     (case attr of None \<Rightarrow> Inr []
      | Some attr \<Rightarrow> bindE (blob_len bo mem attr) (\<lambda>rem. blob_walk bo mem (blob_data attr) rem))"

function blob_walk_len :: "byte_order \<Rightarrow> u8 list \<Rightarrow> u32 \<Rightarrow> nat \<Rightarrow> u32 \<Rightarrow> nat list result" where
  \<comment> \<open>the loop of \<^verbatim>\<open>blob_for_each_attr_len\<close>, which also stops when the remaining length reaches the limit\<close>
  "blob_walk_len bo mem attr_len pos rem =
     (if rem \<ge> 4 \<and> rem < attr_len then
        bindE (blob_pad_len bo mem pos) (\<lambda>n.
          if n \<le> rem \<and> n \<ge> 4
          then bindE (blob_walk_len bo mem attr_len (pos + unat n) (rem - n)) (\<lambda>ps. Inr (pos # ps))
          else Inr [])
      else Inr [])"
  by auto
termination
proof (relation "measure (\<lambda>(bo, mem, attr_len, pos, rem). unat rem)")
  fix bo mem attr_len pos and rem n :: u32
  assume "n \<le> rem \<and> n \<ge> 4"
  then have "unat (rem - n) < unat rem" by (auto simp: word_le_nat_alt unat_sub)
  then show "((bo, mem, attr_len, pos + unat n, rem - n), bo, mem, attr_len, pos, rem)
    \<in> measure (\<lambda>(bo, mem, attr_len, pos, rem). unat rem)" by simp
qed simp

declare blob_walk_len.simps [simp del]

definition blob_for_each_attr_len :: "byte_order \<Rightarrow> u8 list \<Rightarrow> nat option \<Rightarrow> u32 \<Rightarrow> nat list result" where
  "blob_for_each_attr_len bo mem attr attr_len =
     (case attr of None \<Rightarrow> Inr []
      | Some attr \<Rightarrow> bindE (blob_len bo mem attr) (\<lambda>rem. blob_walk_len bo mem attr_len (blob_data attr) rem))"

section \<open>Named fields\<close>

datatype blobmsg_type = BLOBMSG_TYPE_UNSPEC | BLOBMSG_TYPE_ARRAY | BLOBMSG_TYPE_TABLE | BLOBMSG_TYPE_STRING
  | BLOBMSG_TYPE_INT64 | BLOBMSG_TYPE_INT32 | BLOBMSG_TYPE_INT16 | BLOBMSG_TYPE_INT8 | BLOBMSG_TYPE_DOUBLE

primrec blobmsg_type_code :: "blobmsg_type \<Rightarrow> u32" where
  "blobmsg_type_code BLOBMSG_TYPE_UNSPEC = 0"
| "blobmsg_type_code BLOBMSG_TYPE_ARRAY = 1"
| "blobmsg_type_code BLOBMSG_TYPE_TABLE = 2"
| "blobmsg_type_code BLOBMSG_TYPE_STRING = 3"
| "blobmsg_type_code BLOBMSG_TYPE_INT64 = 4"
| "blobmsg_type_code BLOBMSG_TYPE_INT32 = 5"
| "blobmsg_type_code BLOBMSG_TYPE_INT16 = 6"
| "blobmsg_type_code BLOBMSG_TYPE_INT8 = 7"
| "blobmsg_type_code BLOBMSG_TYPE_DOUBLE = 8"

record blobmsg_policy =
  policy_name :: string
  policy_type :: blobmsg_type

definition BLOBMSG_PADDING :: "u32 \<Rightarrow> u32" where
  "BLOBMSG_PADDING len = (len + push_bit 2 1 - 1) AND NOT (push_bit 2 1 - 1)"

definition blobmsg_hdrlen :: "u32 \<Rightarrow> u32" where
  "blobmsg_hdrlen namelen = BLOBMSG_PADDING (2 + namelen + 1)"

definition blobmsg_clear_name :: "u8 list \<Rightarrow> nat \<Rightarrow> u8 list result" where
  "blobmsg_clear_name mem attr =
     (if blob_data attr + 2 < length mem then Inr (mem[blob_data attr + 2 := 0]) else Inl OutOfBounds)"

definition blobmsg_name :: "nat \<Rightarrow> nat" where
  "blobmsg_name attr = blob_data attr + 2"

definition blobmsg_type_of :: "byte_order \<Rightarrow> u8 list \<Rightarrow> nat \<Rightarrow> u32 result" where
  "blobmsg_type_of bo mem attr = blob_id bo mem attr"

definition blobmsg_data :: "byte_order \<Rightarrow> u8 list \<Rightarrow> nat option \<Rightarrow> nat option result" where
  "blobmsg_data bo mem attr =
     (case attr of None \<Rightarrow> Inr None
      | Some attr \<Rightarrow>
          let hdr = blob_data attr; data = blob_data attr in
          bindE (blob_is_extended bo mem attr) (\<lambda>ext.
            if ext then bindE (read_word bo 2 mem hdr) (\<lambda>namelen.
              Inr (Some (data + unat (blobmsg_hdrlen (ucast (be16_to_cpu bo namelen))))))
            else Inr (Some data)))"

definition blobmsg_data_len :: "byte_order \<Rightarrow> u8 list \<Rightarrow> nat option \<Rightarrow> int result" where
  "blobmsg_data_len bo mem attr =
     (case attr of None \<Rightarrow> Inr 0
      | Some a \<Rightarrow>
          let start = blob_data a in
          bindE (blobmsg_data bo mem attr) (\<lambda>end.
          bindE (blob_len bo mem a) (\<lambda>n. Inr (sint (n - of_nat (the end - start))))))"

definition blobmsg_len :: "byte_order \<Rightarrow> u8 list \<Rightarrow> nat option \<Rightarrow> int result" where
  "blobmsg_len bo mem attr = blobmsg_data_len bo mem attr"

type_synonym 'b field_writer = "'b \<Rightarrow> u32 \<Rightarrow> u8 list \<Rightarrow> u8 list \<Rightarrow> int \<times> 'b"

definition blobmsg_add_double :: "byte_order \<Rightarrow> ('d \<Rightarrow> u64) \<Rightarrow> 'b field_writer \<Rightarrow> 'b \<Rightarrow> u8 list \<Rightarrow> 'd \<Rightarrow> int \<times> 'b" where
  \<comment> \<open>the representation of a double is an argument\<close>
  "blobmsg_add_double bo bits add_field buf name val =
     add_field buf (blobmsg_type_code BLOBMSG_TYPE_DOUBLE) name (mem_bytes bo 8 (cpu_to_be64 bo (bits val)))"

definition blobmsg_add_u8 :: "'b field_writer \<Rightarrow> 'b \<Rightarrow> u8 list \<Rightarrow> u8 \<Rightarrow> int \<times> 'b" where
  "blobmsg_add_u8 add_field buf name val = add_field buf (blobmsg_type_code BLOBMSG_TYPE_INT8) name [val]"

definition blobmsg_add_u16 :: "byte_order \<Rightarrow> 'b field_writer \<Rightarrow> 'b \<Rightarrow> u8 list \<Rightarrow> u16 \<Rightarrow> int \<times> 'b" where
  "blobmsg_add_u16 bo add_field buf name val =
     add_field buf (blobmsg_type_code BLOBMSG_TYPE_INT16) name (mem_bytes bo 2 (cpu_to_be16 bo val))"

definition blobmsg_add_u32 :: "byte_order \<Rightarrow> 'b field_writer \<Rightarrow> 'b \<Rightarrow> u8 list \<Rightarrow> u32 \<Rightarrow> int \<times> 'b" where
  "blobmsg_add_u32 bo add_field buf name val =
     add_field buf (blobmsg_type_code BLOBMSG_TYPE_INT32) name (mem_bytes bo 4 (cpu_to_be32 bo val))"

definition blobmsg_add_u64 :: "byte_order \<Rightarrow> 'b field_writer \<Rightarrow> 'b \<Rightarrow> u8 list \<Rightarrow> u64 \<Rightarrow> int \<times> 'b" where
  "blobmsg_add_u64 bo add_field buf name val =
     add_field buf (blobmsg_type_code BLOBMSG_TYPE_INT64) name (mem_bytes bo 8 (cpu_to_be64 bo val))"

definition blobmsg_add_string :: "'b field_writer \<Rightarrow> 'b \<Rightarrow> u8 list \<Rightarrow> u8 list \<Rightarrow> int \<times> 'b" where
  "blobmsg_add_string add_field buf name str = add_field buf (blobmsg_type_code BLOBMSG_TYPE_STRING) name (str @ [0])"

definition blobmsg_add_blob :: "byte_order \<Rightarrow> 'b field_writer \<Rightarrow> 'b \<Rightarrow> u8 list \<Rightarrow> nat \<Rightarrow> (int \<times> 'b) result" where
  \<comment> \<open>copies a field of another message; the length is passed as an unsigned int\<close>
  "blobmsg_add_blob bo add_field buf mem attr =
     bindE (blobmsg_type_of bo mem attr) (\<lambda>ty.
     bindE (c_string mem (blobmsg_name attr)) (\<lambda>name.
     bindE (blobmsg_data bo mem (Some attr)) (\<lambda>data.
     bindE (blobmsg_data_len bo mem (Some attr)) (\<lambda>len.
     bindE (read_bytes mem (the data) (unat (word_of_int len :: u32))) (\<lambda>bs.
     Inr (add_field buf ty name bs))))))"

definition blobmsg_open_array :: "('b \<Rightarrow> u8 list \<Rightarrow> bool \<Rightarrow> 'c) \<Rightarrow> 'b \<Rightarrow> u8 list \<Rightarrow> 'c" where
  "blobmsg_open_array open_nested buf name = open_nested buf name True"

definition blobmsg_open_table :: "('b \<Rightarrow> u8 list \<Rightarrow> bool \<Rightarrow> 'c) \<Rightarrow> 'b \<Rightarrow> u8 list \<Rightarrow> 'c" where
  "blobmsg_open_table open_nested buf name = open_nested buf name False"

definition blobmsg_close_array :: "('b \<Rightarrow> 'k \<Rightarrow> 'b) \<Rightarrow> 'b \<Rightarrow> 'k \<Rightarrow> 'b" where
  "blobmsg_close_array nest_end buf cookie = nest_end buf cookie"

definition blobmsg_close_table :: "('b \<Rightarrow> 'k \<Rightarrow> 'b) \<Rightarrow> 'b \<Rightarrow> 'k \<Rightarrow> 'b" where
  "blobmsg_close_table nest_end buf cookie = nest_end buf cookie"

definition blobmsg_buf_init :: "('b \<Rightarrow> u32 \<Rightarrow> int \<times> 'b) \<Rightarrow> 'b \<Rightarrow> int \<times> 'b" where
  "blobmsg_buf_init buf_init buf = buf_init buf (blobmsg_type_code BLOBMSG_TYPE_TABLE)"

definition at_data :: "byte_order \<Rightarrow> u8 list \<Rightarrow> nat option \<Rightarrow> (nat \<Rightarrow> 'v result) \<Rightarrow> 'v result" where
  \<comment> \<open>dereferencing what \<^verbatim>\<open>blobmsg_data\<close> returns\<close>
  "at_data bo mem attr get =
     bindE (blobmsg_data bo mem attr) (\<lambda>p. case p of None \<Rightarrow> Inl NullDeref | Some p \<Rightarrow> get p)"

definition blobmsg_get_u8 :: "byte_order \<Rightarrow> u8 list \<Rightarrow> nat option \<Rightarrow> u8 result" where
  "blobmsg_get_u8 bo mem attr = at_data bo mem attr (\<lambda>p. bindE (read_bytes mem p 1) (\<lambda>bs. Inr (hd bs)))"

definition blobmsg_get_bool :: "byte_order \<Rightarrow> u8 list \<Rightarrow> nat option \<Rightarrow> bool result" where
  "blobmsg_get_bool bo mem attr = at_data bo mem attr (\<lambda>p. bindE (read_bytes mem p 1) (\<lambda>bs. Inr (hd bs \<noteq> 0)))"

definition blobmsg_get_u16 :: "byte_order \<Rightarrow> u8 list \<Rightarrow> nat option \<Rightarrow> u16 result" where
  "blobmsg_get_u16 bo mem attr = at_data bo mem attr (\<lambda>p. bindE (read_word bo 2 mem p) (\<lambda>w. Inr (be16_to_cpu bo w)))"

definition blobmsg_get_u32 :: "byte_order \<Rightarrow> u8 list \<Rightarrow> nat option \<Rightarrow> u32 result" where
  "blobmsg_get_u32 bo mem attr = at_data bo mem attr (\<lambda>p. bindE (read_word bo 4 mem p) (\<lambda>w. Inr (be32_to_cpu bo w)))"

definition blobmsg_get_u64 :: "byte_order \<Rightarrow> u8 list \<Rightarrow> nat option \<Rightarrow> u64 result" where
  "blobmsg_get_u64 bo mem attr = at_data bo mem attr (two_words bo mem)"

definition blobmsg_get_double :: "byte_order \<Rightarrow> (u64 \<Rightarrow> 'd) \<Rightarrow> u8 list \<Rightarrow> nat option \<Rightarrow> 'd result" where
  "blobmsg_get_double bo of_bits mem attr = bindE (blobmsg_get_u64 bo mem attr) (\<lambda>w. Inr (of_bits w))"

definition blobmsg_get_string :: "byte_order \<Rightarrow> u8 list \<Rightarrow> nat option \<Rightarrow> nat option result" where
  "blobmsg_get_string bo mem attr = (case attr of None \<Rightarrow> Inr None | Some _ \<Rightarrow> blobmsg_data bo mem attr)"

definition blobmsg_for_each_attr :: "byte_order \<Rightarrow> u8 list \<Rightarrow> nat option \<Rightarrow> nat list result" where
  "blobmsg_for_each_attr bo mem attr =
     (case attr of None \<Rightarrow> Inr []
      | Some a \<Rightarrow>
          bindE (blobmsg_data_len bo mem attr) (\<lambda>rem.
          bindE (blobmsg_data bo mem attr) (\<lambda>pos. blob_walk bo mem (the pos) (word_of_int rem))))"

definition blobmsg_for_each_attr_rem :: "byte_order \<Rightarrow> u8 list \<Rightarrow> nat option \<Rightarrow> u32 \<Rightarrow> nat list result" where
  \<comment> \<open>the variant with the remaining length given; without an attribute the first header is read through null\<close>
  "blobmsg_for_each_attr_rem bo mem attr rem =
     (case attr of
        None \<Rightarrow> if rem \<ge> 4 then Inl NullDeref else Inr []
      | Some a \<Rightarrow> bindE (blobmsg_data bo mem attr) (\<lambda>pos. blob_walk bo mem (the pos) rem))"

lemma blobmsg_for_each_attr_via_rem:
  "blobmsg_for_each_attr bo mem (Some a) =
     bindE (blobmsg_data_len bo mem (Some a)) (\<lambda>rem. blobmsg_for_each_attr_rem bo mem (Some a) (word_of_int rem))"
  by (simp add: blobmsg_for_each_attr_def blobmsg_for_each_attr_rem_def)

section \<open>Headers\<close>

lemma unat_and_len: "unat (h AND BLOB_ATTR_LEN_MASK) = unat h mod 2 ^ 24"
proof -
  have "h AND BLOB_ATTR_LEN_MASK = take_bit 24 h"
    by (simp add: BLOB_ATTR_LEN_MASK_def take_bit_eq_mask mask_eq_exp_minus_1)
  then have "unat (h AND BLOB_ATTR_LEN_MASK) = take_bit 24 (unat h)" by (simp only: unsigned_take_bit_eq)
  then show ?thesis by (simp add: take_bit_eq_mod)
qed

lemma unat_id: "unat (drop_bit BLOB_ATTR_ID_SHIFT (h AND BLOB_ATTR_ID_MASK)) = unat h div 2 ^ 24 mod 128"
proof -
  have "drop_bit 24 (h AND BLOB_ATTR_ID_MASK) = take_bit 7 (drop_bit 24 h)"
  proof (rule bit_word_eqI)
    fix n assume "n < LENGTH(32)"
    then have "n \<in> {0..<32}" by simp
    then show "bit (drop_bit 24 (h AND BLOB_ATTR_ID_MASK)) n = bit (take_bit 7 (drop_bit 24 h)) n"
      by (simp add: atLeastLessThan_nat_numeral BLOB_ATTR_ID_MASK_def bit_simps, elim disjE; simp add: bit_simps)
  qed
  then have "unat (drop_bit 24 (h AND BLOB_ATTR_ID_MASK)) = take_bit 7 (drop_bit 24 (unat h))"
    by (simp only: unsigned_take_bit_eq unat_drop_bit_eq)
  then show ?thesis by (simp add: BLOB_ATTR_ID_SHIFT_def take_bit_eq_mod drop_bit_eq_div)
qed

lemma extended_bit: "h AND BLOB_ATTR_EXTENDED \<noteq> 0 \<longleftrightarrow> 2 ^ 31 \<le> unat h"
proof -
  have "h AND BLOB_ATTR_EXTENDED = (if bit h 31 then BLOB_ATTR_EXTENDED else 0)"
  proof (rule bit_word_eqI)
    fix n assume "n < LENGTH(32)"
    then have "n \<in> {0..<32}" by simp
    then show "bit (h AND BLOB_ATTR_EXTENDED) n = bit (if bit h 31 then BLOB_ATTR_EXTENDED else 0) n"
      by (simp add: atLeastLessThan_nat_numeral BLOB_ATTR_EXTENDED_def bit_simps, elim disjE; simp add: bit_simps)
  qed
  moreover have "bit h 31 \<longleftrightarrow> 2 ^ 31 \<le> unat h"
  proof -
    have "bit h 31 \<longleftrightarrow> odd (unat h div 2 ^ 31)" using bit_unsigned_iff [of h 31, where 'a = nat] by (simp add: bit_iff_odd)
    moreover have "unat h div 2 ^ 31 < 2" using unsigned_less [of h, where 'a = nat] by (simp add: less_mult_imp_div_less)
    ultimately show ?thesis by (auto simp: less_2_cases_iff div_eq_0_iff)
  qed
  ultimately show ?thesis by (simp add: BLOB_ATTR_EXTENDED_def)
qed

lemma and_not_3: "y AND NOT 3 = push_bit 2 (drop_bit 2 y)" for y :: u32
proof (rule bit_word_eqI)
  fix n assume "n < LENGTH(32)"
  then have "n \<in> {0..<32}" by simp
  then show "bit (y AND NOT 3) n = bit (push_bit 2 (drop_bit 2 y)) n"
    by (simp add: atLeastLessThan_nat_numeral bit_simps, elim disjE; simp add: bit_simps flip: numeral_2_eq_2 numeral_3_eq_3)
qed

lemma unat_and_not_3: "unat (y AND NOT 3 :: u32) = 4 * (unat y div 4)"
proof -
  have "unat (push_bit 2 (drop_bit 2 y)) = take_bit 32 (push_bit 2 (drop_bit 2 (unat y)))"
    using unsigned_push_bit_eq [of 2 "drop_bit 2 y", where 'a = nat] by (simp only: unat_drop_bit_eq) simp
  also have "\<dots> = take_bit 32 (4 * (unat y div 4))" by (simp add: push_bit_eq_mult drop_bit_eq_div mult.commute)
  also have "4 * (unat y div 4) < 2 ^ 32"
    using unsigned_less [of y, where 'a = nat] by (simp add: le_less_trans [OF div_times_less_eq_dividend] mult.commute)
  then have "take_bit 32 (4 * (unat y div 4)) = 4 * (unat y div 4)" by (rule take_bit_nat_eq_self)
  finally show ?thesis by (simp only: and_not_3)
qed

lemma unat_align:
  assumes "unat x + 3 < 2 ^ 32"
  shows "unat ((x + 4 - 1) AND NOT (4 - 1) :: u32) = 4 * ((unat x + 3) div 4)"
proof -
  have "unat (x + 3) = unat x + 3" using assms by (simp add: unat_word_ariths)
  moreover have "(x + 4 - 1) AND NOT (4 - 1) = (x + 3) AND NOT 3" by (simp add: add.commute)
  ultimately show ?thesis by (simp only: unat_and_not_3)
qed

lemma id_len_cases:
  obtains (fault) "length mem < p + 4" "id_len bo mem p = Inl OutOfBounds"
  | (header) h where "p + 4 \<le> length mem" "id_len bo mem p = Inr (cpu_to_be32 bo h)"
proof -
  have "\<exists>h. w = cpu_to_be32 bo h" for w
    by (cases bo) (auto simp: order_defs intro: exI [of _ "constant_swap32 w"] simp: swap_involution)
  then show ?thesis using fault header by (cases "p + 4 \<le> length mem") (auto simp: id_len_def read_word_def read_bytes_def)
qed

lemma header_values:
  assumes "id_len bo mem p = Inr (cpu_to_be32 bo h)"
  shows "blob_len bo mem p = Inr ((h AND BLOB_ATTR_LEN_MASK) - 4)"
    and "blob_raw_len bo mem p = Inr (h AND BLOB_ATTR_LEN_MASK)"
    and "blob_pad_len bo mem p = Inr (((h AND BLOB_ATTR_LEN_MASK) + BLOB_ATTR_ALIGN - 1) AND NOT (BLOB_ATTR_ALIGN - 1))"
    and "blob_id bo mem p = Inr (drop_bit BLOB_ATTR_ID_SHIFT (h AND BLOB_ATTR_ID_MASK))"
  using assms by (simp_all add: blob_len_def blob_raw_len_def blob_pad_len_def blob_id_def)

lemma pad_len_value:
  "unat (((h AND BLOB_ATTR_LEN_MASK) + BLOB_ATTR_ALIGN - 1) AND NOT (BLOB_ATTR_ALIGN - 1)) = 4 * ((unat h mod 2 ^ 24 + 3) div 4)"
proof -
  have "unat (h AND BLOB_ATTR_LEN_MASK) < 2 ^ 24" unfolding unat_and_len by (rule mod_less_divisor) simp
  then have "unat (h AND BLOB_ATTR_LEN_MASK) + 3 < 2 ^ 32" by simp
  from unat_align [OF this] show ?thesis unfolding BLOB_ATTR_ALIGN_def unat_and_len .
qed

lemma blob_len_value:
  "unat ((h AND BLOB_ATTR_LEN_MASK) - 4) = (if 4 \<le> unat h mod 2 ^ 24 then unat h mod 2 ^ 24 - 4 else 2 ^ 32 + unat h mod 2 ^ 24 - 4)"
proof -
  have "unat (h AND BLOB_ATTR_LEN_MASK) < 2 ^ 24" unfolding unat_and_len by (rule mod_less_divisor) simp
  then show ?thesis
    using unat_and_len [of h] by (auto simp: unat_sub_if_size word_size)
qed

text \<open>The positions a walk visits: each follows the previous one by its padded length, within the bounds.\<close>

fun walk_chain :: "byte_order \<Rightarrow> u8 list \<Rightarrow> nat \<Rightarrow> nat \<Rightarrow> nat list \<Rightarrow> bool" where
  "walk_chain bo mem p e [] \<longleftrightarrow> True"
| "walk_chain bo mem p e (q # qs) \<longleftrightarrow> q = p \<and>
     (case (blob_pad_len bo mem p, blob_raw_len bo mem p, blob_len bo mem p) of
        (Inr n, Inr r, Inr l) \<Rightarrow> 4 \<le> unat n \<and> 4 dvd unat n \<and> p + unat n \<le> e \<and> unat r \<le> unat n \<and>
          (if 4 \<le> unat r then p + 4 + unat l \<le> e else 2 ^ 32 - 3 \<le> unat l) \<and>
          walk_chain bo mem (p + unat n) e qs
      | _ \<Rightarrow> False)"

lemma blob_walk_step:
  "4 \<le> rem \<Longrightarrow> blob_pad_len bo mem pos = Inr n \<Longrightarrow> blob_walk bo mem pos rem =
     (if n \<le> rem \<and> n \<ge> 4 then bindE (blob_walk bo mem (pos + unat n) (rem - n)) (\<lambda>ps. Inr (pos # ps)) else Inr [])"
  by (subst blob_walk.simps) simp

lemma blob_walk_chain:
  assumes "pos + unat rem \<le> length mem"
  shows "\<exists>ps. blob_walk bo mem pos rem = Inr ps \<and> walk_chain bo mem pos (pos + unat rem) ps"
  using assms
proof (induction bo mem pos rem rule: blob_walk.induct)
  case (1 bo mem pos rem)
  show ?case
  proof (cases "rem \<ge> 4")
    case False
    then show ?thesis by (simp add: blob_walk.simps)
  next
    case True
    then have r4: "4 \<le> unat rem" by (simp add: word_le_nat_alt)
    with 1(2) obtain h where h: "id_len bo mem pos = Inr (cpu_to_be32 bo h)"
      by (cases rule: id_len_cases [of mem pos bo]) auto
    note hv = header_values [OF h]
    define n where "n = ((h AND BLOB_ATTR_LEN_MASK) + BLOB_ATTR_ALIGN - 1) AND NOT (BLOB_ATTR_ALIGN - 1)"
    have n: "unat n = 4 * ((unat h mod 2 ^ 24 + 3) div 4)" unfolding n_def by (rule pad_len_value)
    note step = blob_walk_step [OF True hv(3) [folded n_def]]
    show ?thesis
    proof (cases "n \<le> rem \<and> n \<ge> 4")
      case False
      then show ?thesis unfolding step by auto
    next
      case ok: True
      then have un: "unat n \<le> unat rem" "4 \<le> unat n" "unat (rem - n) = unat rem - unat n"
        by (auto simp: word_le_nat_alt unat_sub)
      with 1(1) [OF True hv(3) [folded n_def] ok] 1(2) obtain ps where
        ps: "blob_walk bo mem (pos + unat n) (rem - n) = Inr ps" "walk_chain bo mem (pos + unat n) (pos + unat rem) ps" by auto
      have "blob_walk bo mem pos rem = Inr (pos # ps)" using ok ps(1) unfolding step by simp
      moreover have "unat h mod 2 ^ 24 \<le> unat n" unfolding n by simp
      moreover have "1 \<le> unat h mod 2 ^ 24" using un(2) n by (cases "unat h mod 2 ^ 24 = 0") auto
      ultimately have "walk_chain bo mem pos (pos + unat rem) (pos # ps)"
        using hv ps(2) un n unfolding n_def [symmetric] by (simp add: unat_and_len blob_len_value)
      then show ?thesis using \<open>blob_walk bo mem pos rem = Inr (pos # ps)\<close> by blast
    qed
  qed
qed

text \<open>
  C9. Iterating over attributes is memory safe and ends: as long as the remaining length stays inside
  the memory, no header is read outside it whatever the bytes are, and every visited attribute lies
  at a multiple of four behind the first with its padded extent inside the bounds. Its payload lies
  inside too, unless its header claims a total length of 1 to 3 bytes: such an attribute is visited,
  and its payload length has wrapped around to almost 4 GiB.
\<close>

theorem blob_walk_safe:
  assumes "pos + unat rem \<le> length mem"
  shows "\<exists>ps. blob_walk bo mem pos rem = Inr ps \<and> walk_chain bo mem pos (pos + unat rem) ps"
  using assms by (rule blob_walk_chain)

theorem blob_walk_safe_witness:
  "blob_walk Little [0, 0, 0, 3, 0, 0, 0, 9] 0 8 = Inr [0] \<and> walk_chain Little [0, 0, 0, 3, 0, 0, 0, 9] 0 8 [0] \<and>
   blob_len Little [0, 0, 0, 3, 0, 0, 0, 9] 0 = Inr 0xFFFFFFFF"
proof -
  obtain ps where "blob_walk Little [0, 0, 0, 3, 0, 0, 0, 9] 0 8 = Inr ps" "walk_chain Little [0, 0, 0, 3, 0, 0, 0, 9] 0 8 ps"
    using blob_walk_safe [of 0 8 "[0, 0, 0, 3, 0, 0, 0, 9]" Little] by auto
  moreover have "blob_walk Little [0, 0, 0, 3, 0, 0, 0, 9] 0 8 = Inr [0]" by code_simp
  moreover have "blob_len Little [0, 0, 0, 3, 0, 0, 0, 9] 0 = Inr 0xFFFFFFFF" by code_simp
  ultimately show ?thesis by simp
qed

section \<open>Attributes written and read back\<close>

text \<open>The documented layout: a big-endian header with the extended bit, the identifier and the total length, the payload, and zeroes up to a multiple of four.\<close>

record attr =
  att_ext :: bool
  att_id :: nat
  att_payload :: "u8 list"

definition wf_attr :: "attr \<Rightarrow> bool" where
  "wf_attr a \<longleftrightarrow> att_id a < 128 \<and> length (att_payload a) + 4 < 2 ^ 24"

definition attr_header :: "attr \<Rightarrow> u32" where
  "attr_header a = of_nat ((if att_ext a then 2 ^ 31 else 0) + att_id a * 2 ^ 24 + (length (att_payload a) + 4))"

definition encode_attr :: "attr \<Rightarrow> u8 list" where
  "encode_attr a = be_bytes 4 (attr_header a) @ att_payload a
     @ replicate (4 * ((length (att_payload a) + 3) div 4) - length (att_payload a)) 0"

definition decode_attr :: "byte_order \<Rightarrow> u8 list \<Rightarrow> nat \<Rightarrow> attr result" where
  "decode_attr bo mem p =
     bindE (blob_is_extended bo mem p) (\<lambda>e.
     bindE (blob_id bo mem p) (\<lambda>i.
     bindE (blob_len bo mem p) (\<lambda>n.
     bindE (read_bytes mem (blob_data p) (unat n)) (\<lambda>bs.
     Inr \<lparr>att_ext = e, att_id = unat i, att_payload = bs\<rparr>))))"

lemma mem_word_be:
  "mem_word bo (be_bytes 2 x) = cpu_to_be16 bo x" "mem_word bo (be_bytes 4 y) = cpu_to_be32 bo y"
  by (simp_all flip: mem_bytes_be [of bo] add: mem_word_bytes)

lemma read_bytes_at: "read_bytes (pre @ bs @ post) (length pre) (length bs) = Inr bs"
  by (simp add: read_bytes_def)

lemma read_be:
  "read_word bo 2 (pre @ be_bytes 2 x @ post) (length pre) = Inr (cpu_to_be16 bo x)"
  "read_word bo 4 (pre @ be_bytes 4 y @ post) (length pre) = Inr (cpu_to_be32 bo y)"
  using read_bytes_at [of pre "be_bytes 2 x" post] read_bytes_at [of pre "be_bytes 4 y" post]
  by (simp_all add: read_word_def mem_word_be)

lemma unat_of_nat_u32: "n < 2 ^ 32 \<Longrightarrow> unat (of_nat n :: u32) = n"
  by (simp add: unsigned_of_nat take_bit_nat_eq_self)

lemma unat_header:
  assumes "wf_attr a"
  shows "unat (attr_header a) = (if att_ext a then 2 ^ 31 else 0) + att_id a * 2 ^ 24 + (length (att_payload a) + 4)"
proof -
  have "att_id a \<le> 127" "length (att_payload a) + 4 < 2 ^ 24" using assms by (auto simp: wf_attr_def)
  then have "(if att_ext a then 2 ^ 31 else 0) + att_id a * 2 ^ 24 + (length (att_payload a) + 4) < (2 :: nat) ^ 32" by auto
  then show ?thesis unfolding attr_header_def
    by (rule unat_of_nat_u32)
qed

lemma header_parts:
  assumes "wf_attr a"
  shows "unat (attr_header a) mod 2 ^ 24 = length (att_payload a) + 4"
    and "unat (attr_header a) div 2 ^ 24 mod 128 = att_id a"
    and "2 ^ 31 \<le> unat (attr_header a) \<longleftrightarrow> att_ext a"
proof -
  define e where "e = (if att_ext a then 128 else 0 :: nat)"
  define l where "l = length (att_payload a) + 4"
  have l: "l < 2 ^ 24" and i: "att_id a < 128" using assms by (auto simp: wf_attr_def l_def)
  have u: "unat (attr_header a) = (e + att_id a) * 2 ^ 24 + l"
    unfolding unat_header [OF assms] by (simp add: e_def l_def)
  have "((e + att_id a) * 2 ^ 24 + l) mod 2 ^ 24 = l" using l by (simp only: mod_mult_self3 mod_less)
  then show "unat (attr_header a) mod 2 ^ 24 = length (att_payload a) + 4" unfolding u by (simp only: l_def)
  have "((e + att_id a) * 2 ^ 24 + l) div 2 ^ 24 = e + att_id a" using l by simp
  then show "unat (attr_header a) div 2 ^ 24 mod 128 = att_id a" unfolding u using i by (simp add: e_def)
  show "2 ^ 31 \<le> unat (attr_header a) \<longleftrightarrow> att_ext a" unfolding u using l i by (auto simp: e_def)
qed

lemma swap_and: "constant_swap32 (x AND y) = constant_swap32 x AND constant_swap32 y"
  by (rule bit_word_eqI) (auto simp: bit_swap32 bit_simps)

lemma cpu_to_be32_and: "cpu_to_be32 bo x AND cpu_to_be32 bo y = 0 \<longleftrightarrow> x AND y = 0"
proof (cases bo)
  case Little
  have "constant_swap32 z = 0 \<longleftrightarrow> z = 0" for z
    by (metis swap_involution(2) swap_and and_zero_eq zero_and_eq)
  with Little show ?thesis by (simp add: order_defs flip: swap_and)
qed (simp add: order_defs)

lemma encoded_header:
  "id_len bo (pre @ encode_attr a @ post) (length pre) = Inr (cpu_to_be32 bo (attr_header a))"
  using read_be(2) [of bo pre "attr_header a"] by (simp add: id_len_def encode_attr_def)

lemma length_encode_attr: "length (encode_attr a) = 4 * ((length (att_payload a) + 7) div 4)"
  by (simp add: encode_attr_def) presburger

lemma encoded_pad_len:
  assumes "wf_attr a"
  shows "\<exists>n. blob_pad_len bo (pre @ encode_attr a @ post) (length pre) = Inr n \<and> unat n = length (encode_attr a)"
proof -
  have "length (att_payload a) + 4 + 3 = length (att_payload a) + 7" by simp
  then show ?thesis
    using header_values(3) [OF encoded_header, of bo pre a post] pad_len_value [of "attr_header a"] header_parts(1) [OF assms]
    by (metis length_encode_attr)
qed

lemma decode_encoded:
  assumes "wf_attr a"
  shows "decode_attr bo (pre @ encode_attr a @ post) (length pre) = Inr a"
proof -
  note h = encoded_header [of bo pre a post] and p = header_parts [OF assms]
  let ?mem = "pre @ encode_attr a @ post"
  have "blob_is_extended bo ?mem (length pre) = Inr (att_ext a)"
    using extended_bit [of "attr_header a"] p(3) by (simp add: blob_is_extended_def h cpu_to_be32_and)
  moreover obtain i where "blob_id bo ?mem (length pre) = Inr i" "unat i = att_id a"
    using header_values(4) [OF h] unat_id [of "attr_header a"] p(2) by metis
  moreover obtain n where "blob_len bo ?mem (length pre) = Inr n" "unat n = length (att_payload a)"
    using header_values(1) [OF h] blob_len_value [of "attr_header a"] p(1) by (metis add_diff_cancel_right' le_add2)
  moreover have "read_bytes ?mem (blob_data (length pre)) (length (att_payload a)) = Inr (att_payload a)"
    using read_bytes_at [of "pre @ be_bytes 4 (attr_header a)" "att_payload a"] by (simp add: encode_attr_def blob_data_def)
  ultimately show ?thesis by (simp add: decode_attr_def)
qed

lemma walk_encoded:
  assumes "list_all wf_attr as" "length (concat (map encode_attr as)) < 2 ^ 32"
  shows "\<exists>ps. blob_walk bo (pre @ concat (map encode_attr as) @ post) (length pre) (of_nat (length (concat (map encode_attr as)))) = Inr ps
    \<and> map (decode_attr bo (pre @ concat (map encode_attr as) @ post)) ps = map Inr as"
  using assms
proof (induction as arbitrary: pre)
  case Nil
  then show ?case by (simp add: blob_walk.simps)
next
  case (Cons a as)
  let ?rest = "concat (map encode_attr as)" and ?e = "encode_attr a"
  let ?mem = "pre @ ?e @ ?rest @ post"
  have wf: "wf_attr a" using Cons.prems by simp
  obtain n where n: "blob_pad_len bo ?mem (length pre) = Inr n" "unat n = length ?e"
    using encoded_pad_len [OF wf, of bo pre "?rest @ post"] by auto
  let ?rem = "of_nat (length ?e + length ?rest) :: u32"
  have rem: "unat ?rem = length ?e + length ?rest" using Cons.prems(2) by (intro unat_of_nat_u32) simp
  have "4 \<le> length ?e" by (simp add: length_encode_attr)
  then have ok: "4 \<le> ?rem" "n \<le> ?rem \<and> n \<ge> 4" using rem n(2) by (auto simp: word_le_nat_alt)
  have "n = of_nat (length ?e)" by (simp flip: n(2))
  then have rest: "?rem - n = of_nat (length ?rest)" by simp
  obtain ps where ps: "blob_walk bo ?mem (length (pre @ ?e)) (of_nat (length ?rest)) = Inr ps" "map (decode_attr bo ?mem) ps = map Inr as"
    using Cons.IH [of "pre @ ?e"] Cons.prems by auto
  have "blob_walk bo ?mem (length pre) ?rem = Inr (length pre # ps)"
    using blob_walk_step [OF ok(1) n(1)] ok(2) ps(1) n(2) rest by simp
  moreover have "decode_attr bo ?mem (length pre) = Inr a" using decode_encoded [OF wf] .
  ultimately show ?case using ps(2) by simp
qed

text \<open>
  C8. Round trip: walking over any sequence of well-formed attributes laid out in memory visits each of
  them once, in order, and reads back its identifier, its extended flag and its payload, on hosts of
  either byte order.
\<close>

theorem blob_roundtrip:
  assumes "list_all wf_attr as" "length (concat (map encode_attr as)) < 2 ^ 32"
  shows "\<exists>ps. blob_walk bo (pre @ concat (map encode_attr as) @ post) (length pre) (of_nat (length (concat (map encode_attr as)))) = Inr ps
    \<and> map (decode_attr bo (pre @ concat (map encode_attr as) @ post)) ps = map Inr as"
  using assms by (rule walk_encoded)

theorem blob_roundtrip_witness:
  "\<exists>ps. blob_walk Big (concat (map encode_attr [\<lparr>att_ext = True, att_id = 3, att_payload = [1, 2, 3]\<rparr>, \<lparr>att_ext = False, att_id = 0, att_payload = []\<rparr>])) 0 12 = Inr ps
    \<and> map (decode_attr Big (concat (map encode_attr [\<lparr>att_ext = True, att_id = 3, att_payload = [1, 2, 3]\<rparr>, \<lparr>att_ext = False, att_id = 0, att_payload = []\<rparr>]))) ps
      = [Inr \<lparr>att_ext = True, att_id = 3, att_payload = [1, 2, 3]\<rparr>, Inr \<lparr>att_ext = False, att_id = 0, att_payload = []\<rparr>]"
  using blob_roundtrip [of "[\<lparr>att_ext = True, att_id = 3, att_payload = [1, 2, 3]\<rparr>, \<lparr>att_ext = False, att_id = 0, att_payload = []\<rparr>]" Big "[]" "[]"]
  by (simp add: wf_attr_def length_encode_attr)

section \<open>Fields written and read back\<close>

text \<open>The documented layout of a named field: the length of the name, the name with its terminator, padding, the data.\<close>

definition field_payload :: "u8 list \<Rightarrow> u8 list \<Rightarrow> u8 list" where
  "field_payload name data = be_bytes 2 (of_nat (length name) :: u16) @ name @ [0]
     @ replicate (4 * ((length name + 6) div 4) - (length name + 3)) 0 @ data"

definition field_attr :: "u32 \<Rightarrow> u8 list \<Rightarrow> u8 list \<Rightarrow> attr" where
  "field_attr ty name data = \<lparr>att_ext = True, att_id = unat ty, att_payload = field_payload name data\<rparr>"

definition wf_field :: "u32 \<Rightarrow> u8 list \<Rightarrow> u8 list \<Rightarrow> bool" where
  "wf_field ty name data \<longleftrightarrow> unat ty < 128 \<and> 0 \<notin> set name \<and> length name < 2 ^ 16 \<and> length name + length data + 16 < 2 ^ 24"

lemma hdrlen_value: "k < 2 ^ 16 \<Longrightarrow> unat (blobmsg_hdrlen (of_nat k)) = 4 * ((k + 6) div 4)"
proof -
  assume k: "k < 2 ^ 16"
  have eq: "blobmsg_hdrlen (of_nat k) = ((of_nat (k + 3)) + 4 - 1) AND NOT (4 - 1)"
    by (simp add: blobmsg_hdrlen_def BLOBMSG_PADDING_def push_bit_eq_mult add.commute)
  have "unat (of_nat (k + 3) :: u32) = k + 3" using k by (intro unat_of_nat_u32) simp
  with k unat_align [of "of_nat (k + 3)"] show ?thesis unfolding eq by (simp add: add.commute)
qed

lemma c_string_at: "0 \<notin> set s \<Longrightarrow> c_string (pre @ s @ 0 # post) (length pre) = Inr s"
proof (induction s arbitrary: pre)
  case Nil
  then show ?case by (subst c_string.simps) (simp add: nth_append)
next
  case (Cons c s)
  from Cons.IH [of "pre @ [c]"] Cons.prems show ?case by (subst c_string.simps) (simp add: nth_append)
qed

lemma length_field_payload: "length (field_payload name data) = 4 * ((length name + 6) div 4) + length data"
proof -
  have "length name + 3 \<le> 4 * ((length name + 6) div 4)" by presburger
  then show ?thesis by (simp add: field_payload_def)
qed

lemma wf_field_attr: "wf_field ty name data \<Longrightarrow> wf_attr (field_attr ty name data)"
proof -
  assume "wf_field ty name data"
  then have "length name + length data + 16 < 2 ^ 24" by (simp only: wf_field_def)
  moreover have "4 * ((length name + 6) div 4) \<le> length name + 6" by (rule times_div_less_eq_dividend)
  ultimately have "4 * ((length name + 6) div 4) + length data + 4 < 2 ^ 24" by linarith
  with \<open>wf_field ty name data\<close> show ?thesis by (simp add: wf_field_def wf_attr_def field_attr_def length_field_payload)
qed

text \<open>What the accessors find in an encoded field at position \<open>length pre\<close>.\<close>

lemma field_access:
  assumes wf: "wf_field ty name data" and mem: "mem = pre @ encode_attr (field_attr ty name data) @ post" and p: "p = length pre"
    and q: "q = p + 4 + 4 * ((length name + 6) div 4)"
  shows "blobmsg_type_of bo mem p = Inr ty" and "c_string mem (blobmsg_name p) = Inr name"
    and "blobmsg_data bo mem (Some p) = Inr (Some q)" and "blobmsg_data_len bo mem (Some p) = Inr (int (length data))"
    and "\<exists>pre' post'. mem = pre' @ data @ post' \<and> length pre' = q"
proof -
  let ?a = "field_attr ty name data"
  note wa = wf_field_attr [OF wf] and h = encoded_header [of bo pre ?a post, folded mem p]
  note parts = header_parts [OF wa]
  have k: "length name < 2 ^ 16" using wf by (simp add: wf_field_def)
  obtain i where "blob_id bo mem p = Inr i" "unat i = unat ty"
    using header_values(4) [OF h] unat_id [of "attr_header ?a"] parts(2) by (metis attr.select_convs(2) field_attr_def)
  then show "blobmsg_type_of bo mem p = Inr ty" by (simp add: blobmsg_type_of_def word_unat_eq_iff)
  let ?pad = "replicate (4 * ((length name + 6) div 4) - (length name + 3)) (0 :: u8)"
  let ?post = "replicate (4 * ((length (field_payload name data) + 3) div 4) - length (field_payload name data)) 0 @ post"
  have flat: "mem = (pre @ be_bytes 4 (attr_header ?a) @ be_bytes 2 (of_nat (length name) :: u16)) @ name @ 0 # ?pad @ data @ ?post"
    by (simp add: mem encode_attr_def field_payload_def field_attr_def)
  show "c_string mem (blobmsg_name p) = Inr name"
    using c_string_at [of name "pre @ be_bytes 4 (attr_header ?a) @ be_bytes 2 (of_nat (length name) :: u16)" "?pad @ data @ ?post"] wf
    unfolding flat by (simp add: blobmsg_name_def blob_data_def p wf_field_def add.commute)
  have "read_word bo 2 mem (p + 4) = Inr (cpu_to_be16 bo (of_nat (length name)))"
    using read_be(1) [of bo "pre @ be_bytes 4 (attr_header ?a)" "of_nat (length name)" "name @ 0 # ?pad @ data @ ?post"]
    unfolding flat by (simp add: p)
  moreover have "blob_is_extended bo mem p = Inr True"
    using extended_bit [of "attr_header ?a"] parts(3) by (simp add: blob_is_extended_def h cpu_to_be32_and field_attr_def)
  moreover have "ucast (of_nat (length name) :: u16) = (of_nat (length name) :: u32)"
    using k by (simp add: unsigned_of_nat take_bit_nat_eq_self)
  ultimately show data: "blobmsg_data bo mem (Some p) = Inr (Some q)"
    using hdrlen_value [OF k] by (simp add: blobmsg_data_def blob_data_def q)
  obtain n where n: "blob_len bo mem p = Inr n" "unat n = 4 * ((length name + 6) div 4) + length data"
    using header_values(1) [OF h] blob_len_value [of "attr_header ?a"] parts(1)
    by (metis add_diff_cancel_right' attr.select_convs(3) field_attr_def le_add2 length_field_payload)
  have "n - of_nat (q - blob_data p) = (of_nat (length data) :: u32)"
  proof -
    have "n = of_nat (4 * ((length name + 6) div 4) + length data)" by (simp only: n(2) [symmetric]) simp
    then show ?thesis by (simp add: q blob_data_def)
  qed
  moreover have "length data < 2 ^ 24" using wf by (simp add: wf_field_def)
  then have "sint (of_nat (length data) :: u32) = int (length data)"
    by (simp add: signed_of_nat signed_take_bit_int_eq_self)
  ultimately show "blobmsg_data_len bo mem (Some p) = Inr (int (length data))"
    using data n(1) by (simp add: blobmsg_data_len_def Let_def)
  have "length name + 3 \<le> 4 * ((length name + 6) div 4)" by presburger
  then show "\<exists>pre' post'. mem = pre' @ data @ post' \<and> length pre' = q"
    by (intro exI [of _ "pre @ be_bytes 4 (attr_header ?a) @ be_bytes 2 (of_nat (length name) :: u16) @ name @ 0 # ?pad"] exI [of _ ?post])
      (simp add: flat q p)
qed

text \<open>The documented behaviour of \<^verbatim>\<open>blobmsg_add_field\<close>: a field that fits is appended and 0 is returned.\<close>

definition appends_fields :: "u8 list field_writer \<Rightarrow> bool" where
  "appends_fields add_field \<longleftrightarrow> (\<forall>buf ty name data. wf_field ty name data \<longrightarrow>
     add_field buf ty name data = (0, buf @ encode_attr (field_attr ty name data)))"

lemma two_words_be: "two_words bo (pre @ be_bytes 8 x @ post) (length pre) = Inr (x :: u64)"
proof -
  let ?hi = "ucast (drop_bit 32 x) :: u32" and ?lo = "ucast x :: u32"
  have split: "be_bytes 8 x = be_bytes 4 ?hi @ be_bytes 4 ?lo"
  proof -
    have "le_bytes 8 x = le_bytes 4 ?lo @ le_bytes 4 ?hi"
    proof (rule nth_equalityI)
      fix i assume "i < length (le_bytes 8 x)"
      then have "i < 8" by simp
      show "le_bytes 8 x ! i = (le_bytes 4 ?lo @ le_bytes 4 ?hi) ! i"
      proof (cases "i < 4")
        case True
        then show ?thesis by (auto simp: le_bytes_def nth_append bit_byte bit_simps intro!: bit_word_eqI)
      next
        case False
        then obtain j where "i = j + 4" by (metis le_add_diff_inverse2 not_less)
        with \<open>i < 8\<close> show ?thesis
          by (auto simp: le_bytes_def nth_append bit_byte bit_simps add.commute add.left_commute intro!: bit_word_eqI)
      qed
    qed simp
    then show ?thesis by (simp add: be_bytes_def)
  qed
  have "push_bit 32 (ucast ?hi) OR ucast ?lo = x"
    by (rule bit_word_eqI) (auto simp: bit_simps dest: bit_imp_le_length)
  then show ?thesis
    using read_be(2) [of bo pre ?hi "be_bytes 4 ?lo @ post"] read_be(2) [of bo "pre @ be_bytes 4 ?hi" ?lo post]
    by (simp add: two_words_def split)
qed

lemma added_field:
  assumes "appends_fields add_field" "wf_field ty name data"
  obtains mem q pre' post' where "add_field buf ty name data = (0, mem)" "blobmsg_data bo mem (Some (length buf)) = Inr (Some q)"
    "mem = pre' @ data @ post'" "length pre' = q" "c_string mem (blobmsg_name (length buf)) = Inr name"
    "blobmsg_type_of bo mem (length buf) = Inr ty"
proof -
  let ?mem = "buf @ encode_attr (field_attr ty name data) @ []"
  have eq: "add_field buf ty name data = (0, ?mem)" using assms by (simp add: appends_fields_def)
  note acc = field_access [OF assms(2) refl [of ?mem] refl refl]
  obtain pre' post' where "?mem = pre' @ data @ post'" "length pre' = length buf + 4 + 4 * ((length name + 6) div 4)"
    using acc(5) by blast
  then show ?thesis using that [OF eq acc(3) _ _ acc(2) acc(1)] by blast
qed

definition short_name :: "u8 list \<Rightarrow> bool" where
  "short_name name \<longleftrightarrow> 0 \<notin> set name \<and> length name < 2 ^ 16"

text \<open>
  C35. What a message builder adds, the accessors give back: after \<^verbatim>\<open>blobmsg_add_u8\<close>, \<^verbatim>\<open>_u16\<close>, \<^verbatim>\<open>_u32\<close>,
  \<^verbatim>\<open>_u64\<close> or \<^verbatim>\<open>_string\<close> with any value, the getter for that type applied to the new field returns the
  value, on either byte order, given a field writer that behaves as documented.
\<close>

theorem blobmsg_add_get:
  assumes "appends_fields add_field" "short_name name" "length s < 2 ^ 20" "0 \<notin> set s"
  shows "blobmsg_get_u8 bo (snd (blobmsg_add_u8 add_field buf name v8)) (Some (length buf)) = Inr v8 \<and>
    blobmsg_get_u16 bo (snd (blobmsg_add_u16 bo add_field buf name v16)) (Some (length buf)) = Inr v16 \<and>
    blobmsg_get_u32 bo (snd (blobmsg_add_u32 bo add_field buf name v32)) (Some (length buf)) = Inr v32 \<and>
    blobmsg_get_u64 bo (snd (blobmsg_add_u64 bo add_field buf name v64)) (Some (length buf)) = Inr v64 \<and>
    at_data bo (snd (blobmsg_add_string add_field buf name s)) (Some (length buf))
      (c_string (snd (blobmsg_add_string add_field buf name s))) = Inr s"
proof (intro conjI)
  have wf: "wf_field ty name data" if "unat ty < 128" "length data \<le> 2 ^ 20" for ty data
    using that assms(2) by (simp add: wf_field_def short_name_def)
  obtain mem q pre' post' where "add_field buf (blobmsg_type_code BLOBMSG_TYPE_INT8) name [v8] = (0, mem)"
    "blobmsg_data bo mem (Some (length buf)) = Inr (Some q)" "mem = pre' @ [v8] @ post'" "length pre' = q"
    by (rule added_field [OF assms(1) wf, of _ "[v8]" buf bo]) auto
  then show "blobmsg_get_u8 bo (snd (blobmsg_add_u8 add_field buf name v8)) (Some (length buf)) = Inr v8"
    by (auto simp: blobmsg_add_u8_def blobmsg_get_u8_def at_data_def read_bytes_def)
  obtain mem q pre' post' where "add_field buf (blobmsg_type_code BLOBMSG_TYPE_INT16) name (be_bytes 2 v16) = (0, mem)"
    "blobmsg_data bo mem (Some (length buf)) = Inr (Some q)" "mem = pre' @ be_bytes 2 v16 @ post'" "length pre' = q"
    by (rule added_field [OF assms(1) wf, of _ "be_bytes 2 v16" buf bo]) auto
  then show "blobmsg_get_u16 bo (snd (blobmsg_add_u16 bo add_field buf name v16)) (Some (length buf)) = Inr v16"
    using read_be(1) [of bo pre' v16 post'] by (simp add: blobmsg_add_u16_def blobmsg_get_u16_def at_data_def mem_bytes_be)
  obtain mem q pre' post' where "add_field buf (blobmsg_type_code BLOBMSG_TYPE_INT32) name (be_bytes 4 v32) = (0, mem)"
    "blobmsg_data bo mem (Some (length buf)) = Inr (Some q)" "mem = pre' @ be_bytes 4 v32 @ post'" "length pre' = q"
    by (rule added_field [OF assms(1) wf, of _ "be_bytes 4 v32" buf bo]) auto
  then show "blobmsg_get_u32 bo (snd (blobmsg_add_u32 bo add_field buf name v32)) (Some (length buf)) = Inr v32"
    using read_be(2) [of bo pre' v32 post'] by (simp add: blobmsg_add_u32_def blobmsg_get_u32_def at_data_def mem_bytes_be)
  obtain mem q pre' post' where "add_field buf (blobmsg_type_code BLOBMSG_TYPE_INT64) name (be_bytes 8 v64) = (0, mem)"
    "blobmsg_data bo mem (Some (length buf)) = Inr (Some q)" "mem = pre' @ be_bytes 8 v64 @ post'" "length pre' = q"
    by (rule added_field [OF assms(1) wf, of _ "be_bytes 8 v64" buf bo]) auto
  then show "blobmsg_get_u64 bo (snd (blobmsg_add_u64 bo add_field buf name v64)) (Some (length buf)) = Inr v64"
    using two_words_be [of bo pre' v64 post'] by (simp add: blobmsg_add_u64_def blobmsg_get_u64_def at_data_def mem_bytes_be)
  obtain mem q pre' post' where "add_field buf (blobmsg_type_code BLOBMSG_TYPE_STRING) name (s @ [0]) = (0, mem)"
    "blobmsg_data bo mem (Some (length buf)) = Inr (Some q)" "mem = pre' @ (s @ [0]) @ post'" "length pre' = q"
    by (rule added_field [OF assms(1) wf, of _ "s @ [0]" buf bo]) (use assms(3) in auto)
  then show "at_data bo (snd (blobmsg_add_string add_field buf name s)) (Some (length buf))
      (c_string (snd (blobmsg_add_string add_field buf name s))) = Inr s"
    using c_string_at [OF assms(4), of pre' post'] by (simp add: blobmsg_add_string_def at_data_def)
qed

theorem blobmsg_add_get_witness:
  "blobmsg_get_u32 Little (snd (blobmsg_add_u32 Little (\<lambda>buf ty name data. (0, buf @ encode_attr (field_attr ty name data)))
     [1, 2, 3, 4] [114, 115, 115, 105] 66)) (Some (length [1, 2, 3, 4 :: u8])) = Inr 66"
proof -
  have "appends_fields (\<lambda>buf ty name data. (0, buf @ encode_attr (field_attr ty name data)))" by (simp add: appends_fields_def)
  moreover have "short_name [114, 115, 115, 105]" by (simp add: short_name_def)
  moreover have "length ([] :: u8 list) < 2 ^ 20" "0 \<notin> set ([] :: u8 list)" by simp_all
  ultimately show ?thesis using blobmsg_add_get by blast
qed

section \<open>Messages as text\<close>

text \<open>
  \<^verbatim>\<open>blobmsg_json.h\<close>. The formatter proper, \<open>with_cb\<close>, is not part of the header: it takes the attribute, whether it
  is a list, a callback with its argument (null pointers here) and the indentation, -1 for none.
\<close>

type_synonym ('m, 's) json_formatter = "'m \<Rightarrow> bool \<Rightarrow> addr \<Rightarrow> addr \<Rightarrow> int \<Rightarrow> 's"

definition blobmsg_format_json :: "('m, 's) json_formatter \<Rightarrow> 'm \<Rightarrow> bool \<Rightarrow> 's" where
  "blobmsg_format_json with_cb attr list = with_cb attr list null null (-1)"

definition blobmsg_format_json_indent :: "('m, 's) json_formatter \<Rightarrow> 'm \<Rightarrow> bool \<Rightarrow> int \<Rightarrow> 's" where
  "blobmsg_format_json_indent with_cb attr list indent = with_cb attr list null null indent"

definition blobmsg_format_json_value :: "('m \<Rightarrow> addr \<Rightarrow> addr \<Rightarrow> int \<Rightarrow> 's) \<Rightarrow> 'm \<Rightarrow> 's" where
  "blobmsg_format_json_value value_with_cb attr = value_with_cb attr null null (-1)"

definition blobmsg_format_json_value_indent :: "('m \<Rightarrow> addr \<Rightarrow> addr \<Rightarrow> int \<Rightarrow> 's) \<Rightarrow> 'm \<Rightarrow> int \<Rightarrow> 's" where
  "blobmsg_format_json_value_indent value_with_cb attr indent = value_with_cb attr null null indent"

end
