(* ===== verification/Libubus.thy ===== *)
theory Libubus
  imports Avl Blob
begin

text \<open>
  The client library of ubus as far as \<^verbatim>\<open>ubus_example/lib/inc/libubus.h\<close> and \<^verbatim>\<open>ubusmsg.h\<close> define it: the
  numbers of the wire protocol, the descriptions of methods and objects, the inline operations on
  requests and connections, and the loop over the access-control entries. What the headers only
  declare is an argument or a call in a trace.
\<close>

section \<open>Protocol numbers\<close>

datatype ubus_msg_type =
    UBUS_MSG_HELLO | UBUS_MSG_STATUS | UBUS_MSG_DATA | UBUS_MSG_PING | UBUS_MSG_LOOKUP | UBUS_MSG_INVOKE
  | UBUS_MSG_ADD_OBJECT | UBUS_MSG_REMOVE_OBJECT | UBUS_MSG_SUBSCRIBE | UBUS_MSG_UNSUBSCRIBE | UBUS_MSG_NOTIFY | UBUS_MSG_MONITOR

datatype ubus_msg_attr =
    UBUS_ATTR_UNSPEC | UBUS_ATTR_STATUS | UBUS_ATTR_OBJPATH | UBUS_ATTR_OBJID | UBUS_ATTR_METHOD | UBUS_ATTR_OBJTYPE
  | UBUS_ATTR_SIGNATURE | UBUS_ATTR_DATA | UBUS_ATTR_TARGET | UBUS_ATTR_ACTIVE | UBUS_ATTR_NO_REPLY | UBUS_ATTR_SUBSCRIBERS
  | UBUS_ATTR_USER | UBUS_ATTR_GROUP

datatype ubus_monitor_attr =
    UBUS_MONITOR_CLIENT | UBUS_MONITOR_PEER | UBUS_MONITOR_SEND | UBUS_MONITOR_SEQ | UBUS_MONITOR_TYPE | UBUS_MONITOR_DATA

datatype ubus_msg_status =
    UBUS_STATUS_OK | UBUS_STATUS_INVALID_COMMAND | UBUS_STATUS_INVALID_ARGUMENT | UBUS_STATUS_METHOD_NOT_FOUND | UBUS_STATUS_NOT_FOUND
  | UBUS_STATUS_NO_DATA | UBUS_STATUS_PERMISSION_DENIED | UBUS_STATUS_TIMEOUT | UBUS_STATUS_NOT_SUPPORTED | UBUS_STATUS_UNKNOWN_ERROR
  | UBUS_STATUS_CONNECTION_FAILED

primrec status_code :: "ubus_msg_status \<Rightarrow> int" where
  "status_code UBUS_STATUS_OK = 0"
| "status_code UBUS_STATUS_INVALID_COMMAND = 1"
| "status_code UBUS_STATUS_INVALID_ARGUMENT = 2"
| "status_code UBUS_STATUS_METHOD_NOT_FOUND = 3"
| "status_code UBUS_STATUS_NOT_FOUND = 4"
| "status_code UBUS_STATUS_NO_DATA = 5"
| "status_code UBUS_STATUS_PERMISSION_DENIED = 6"
| "status_code UBUS_STATUS_TIMEOUT = 7"
| "status_code UBUS_STATUS_NOT_SUPPORTED = 8"
| "status_code UBUS_STATUS_UNKNOWN_ERROR = 9"
| "status_code UBUS_STATUS_CONNECTION_FAILED = 10"

text \<open>The message header: packed, every field in network order, so the same bytes on every host.\<close>

record ubus_msghdr =
  hdr_version :: u8
  hdr_type :: u8
  hdr_seq :: u16
  hdr_peer :: u32

section \<open>Methods, objects, requests\<close>

record 'h ubus_method =
  method_name :: string
  handler :: "'h option"
  mask :: u64
  tags :: u64
  policy :: "blobmsg_policy list"
  n_policy :: int

record 'h ubus_object_type =
  type_name :: string
  type_id :: u32
  type_methods :: "'h ubus_method list"
  type_n_methods :: int

record 'h ubus_object =
  object_name :: string
  object_id :: u32
  object_type :: "'h ubus_object_type"
  has_subscribers :: bool
  methods :: "'h ubus_method list"
  n_methods :: int

definition UBUS_OBJECT_TYPE :: "string \<Rightarrow> 'h ubus_method list \<Rightarrow> 'h ubus_object_type" where
  "UBUS_OBJECT_TYPE name ms = \<lparr>type_name = name, type_id = 0, type_methods = ms, type_n_methods = int (length ms)\<rparr>"

definition UBUS_METHOD_NOARG_TAGS :: "string \<Rightarrow> 'h \<Rightarrow> u64 \<Rightarrow> 'h ubus_method" where
  \<comment> \<open>\<^verbatim>\<open>__UBUS_METHOD_NOARG\<close>; members not named are zero\<close>
  "UBUS_METHOD_NOARG_TAGS name h t = \<lparr>method_name = name, handler = Some h, mask = 0, tags = t, policy = [], n_policy = 0\<rparr>"

definition UBUS_METHOD_TAG :: "string \<Rightarrow> 'h \<Rightarrow> blobmsg_policy list \<Rightarrow> u64 \<Rightarrow> 'h ubus_method" where
  "UBUS_METHOD_TAG name h p t = (UBUS_METHOD_NOARG_TAGS name h t)\<lparr>policy := p, n_policy := int (length p)\<rparr>"

definition UBUS_METHOD :: "string \<Rightarrow> 'h \<Rightarrow> blobmsg_policy list \<Rightarrow> 'h ubus_method" where
  "UBUS_METHOD name h p = UBUS_METHOD_TAG name h p 0"

definition UBUS_METHOD_MASK :: "string \<Rightarrow> 'h \<Rightarrow> blobmsg_policy list \<Rightarrow> u64 \<Rightarrow> 'h ubus_method" where
  "UBUS_METHOD_MASK name h p m = (UBUS_METHOD_TAG name h p 0)\<lparr>mask := m\<rparr>"

definition UBUS_METHOD_NOARG :: "string \<Rightarrow> 'h \<Rightarrow> 'h ubus_method" where
  "UBUS_METHOD_NOARG name h = UBUS_METHOD_NOARG_TAGS name h 0"

record ubus_acl_key =
  user :: "string option"
  group :: "string option"
  object :: "string option"

record ubus_request_data =
  req_object :: u32
  req_peer :: u32
  req_seq :: u16
  acl :: ubus_acl_key
  deferred :: bool
  reply_fd :: int
  req_fd :: int

definition ubus_defer_request :: "ubus_request_data \<Rightarrow> ubus_request_data \<times> ubus_request_data" where
  \<comment> \<open>the request and the new request; the copy is taken before the flag is set\<close>
  "ubus_defer_request req = (let new_req = req in (req\<lparr>deferred := True\<rparr>, new_req))"

definition ubus_request_set_fd :: "int \<Rightarrow> ubus_request_data \<Rightarrow> ubus_request_data" where
  "ubus_request_set_fd fd req = req\<lparr>reply_fd := fd\<rparr>"

definition ubus_request_get_caller_fd :: "ubus_request_data \<Rightarrow> int \<times> ubus_request_data" where
  "ubus_request_get_caller_fd req = (let fd = req_fd req in (fd, req\<lparr>req_fd := - 1\<rparr>))"

section \<open>Connections\<close>

text \<open>Flags of the event loop (\<^verbatim>\<open>uloop.h\<close>) and the calls the inline operations of a connection make.\<close>

definition ULOOP_READ :: u32 where "ULOOP_READ = push_bit 0 1"

definition ULOOP_WRITE :: u32 where "ULOOP_WRITE = push_bit 1 1"

definition ULOOP_EDGE_TRIGGER :: u32 where "ULOOP_EDGE_TRIGGER = push_bit 2 1"

definition ULOOP_BLOCKING :: u32 where "ULOOP_BLOCKING = push_bit 3 1"

definition ULOOP_EVENT_MASK :: u32 where "ULOOP_EVENT_MASK = ULOOP_READ OR ULOOP_WRITE"

datatype bus_call =
    uloop_fd_add u32
  | uloop_timeout_cancel
  | ubus_shutdown
  | sock_cb u32
  | ubus_remove_object
  | ubus_monitor string
  | uloop_run_timeout int

definition ubus_auto_shutdown :: "bus_call list" where
  "ubus_auto_shutdown = [uloop_timeout_cancel, ubus_shutdown]"

definition ubus_add_uloop :: bus_call where
  "ubus_add_uloop = uloop_fd_add (ULOOP_BLOCKING OR ULOOP_READ)"

definition ubus_handle_event :: bus_call where
  "ubus_handle_event = sock_cb ULOOP_READ"

definition ubus_unregister_subscriber :: bus_call where
  "ubus_unregister_subscriber = ubus_remove_object"

definition ubus_unregister_event_handler :: bus_call where
  "ubus_unregister_event_handler = ubus_remove_object"

definition ubus_monitor_start :: bus_call where
  "ubus_monitor_start = ubus_monitor ''add''"

definition ubus_monitor_stop :: bus_call where
  "ubus_monitor_stop = ubus_monitor ''remove''"

definition uloop_run :: bus_call where
  "uloop_run = uloop_run_timeout (- 1)"

definition uloop_end :: "bool \<Rightarrow> bool" where
  \<comment> \<open>the new value of \<^verbatim>\<open>uloop_cancelled\<close>\<close>
  "uloop_end cancelled = True"

definition ubus_invoke :: "(u32 \<Rightarrow> string \<Rightarrow> 'b \<Rightarrow> nat \<Rightarrow> int \<Rightarrow> 'r) \<Rightarrow> u32 \<Rightarrow> string \<Rightarrow> 'b \<Rightarrow> nat \<Rightarrow> 'r" where
  "ubus_invoke invoke_fd obj method msg timeout = invoke_fd obj method msg timeout (- 1)"

definition ubus_invoke_async :: "(u32 \<Rightarrow> string \<Rightarrow> 'b \<Rightarrow> int \<Rightarrow> 'r) \<Rightarrow> u32 \<Rightarrow> string \<Rightarrow> 'b \<Rightarrow> 'r" where
  "ubus_invoke_async invoke_async_fd obj method msg = invoke_async_fd obj method msg (- 1)"

section \<open>Access-control entries\<close>

text \<open>
  The loop over the entries that match a key, between the results of two searches. \<open>off\<close> is the
  offset of the tree node in an entry; the address of the node of a null entry is \<open>off\<close> itself.
\<close>

definition acl_for_each :: "ubus_acl_key avl_searches \<Rightarrow> nat \<Rightarrow> ubus_acl_key \<Rightarrow> 'a loop_body \<Rightarrow> 'a \<times> node_heap \<Rightarrow> 'a outcome" where
  "acl_for_each lib off m body s =
     (if object m \<noteq> None \<and> user m \<noteq> None \<and> group m \<noteq> None then
        avl_for_element_range (\<lambda>_. Inr (avl_find_ge_element lib m off + off)) (\<lambda>_. Inr (avl_find_le_element lib m off + off)) body s
      else Some (Inr s))"

text \<open>
  The documented results of the searches on a tree whose nodes, in order, are those below the key,
  those equal to it and those above it.
\<close>

definition finds :: "'k avl_searches \<Rightarrow> 'k \<Rightarrow> addr list \<Rightarrow> addr list \<Rightarrow> addr list \<Rightarrow> bool" where
  "finds lib k lower same higher \<longleftrightarrow>
     avl_find_greaterequal lib k = first_of (same @ higher) null \<and> avl_find_lessequal lib k = last_of (lower @ same) null"

lemma range_never_stops:
  assumes "circle h ring" "null \<notin> set ring" "q \<notin> set ring" and "range_loop lk bk stop body p s = Some y"
  shows "lk = next_el \<longrightarrow> bk = prev_el \<longrightarrow> stop = (\<lambda>_. Inr q) \<longrightarrow> body = visit f \<longrightarrow> snd s = h \<longrightarrow> p \<notin> set ring"
  using assms(4)
proof (induction rule: range_loop.raw_induct [rotated, consumes 1, case_names step])
  case (step loop lk bk stop body p s y)
  show ?case
  proof (intro impI notI)
    assume A: "lk = next_el" "bk = prev_el" "stop = (\<lambda>_. Inr q)" "body = visit f" "snd s = h" "p \<in> set ring"
    obtain a where s: "s = (a, h)" using A by (cases s) simp
    obtain xs ys where "ring = xs @ p # ys" using A(6) by (metis split_list)
    then obtain ms where ms: "circle h (p # ms)" "set ring = set (p # ms)"
      using assms(1) circle_rotate [of h xs "p # ys"] that by fastforce
    then obtain e where e: "load h p = Inr e" "next_el e = first_of ms p" "prev_el e = last_of ms p"
      using circle_node [of h p ms] assms(2) by auto
    have in_ring: "first_of ms p \<in> set ring" "last_of ms p \<in> set ring"
      using ms(2) by (cases ms; simp add: last_of_def)+
    have "last_of ms p \<noteq> q" using in_ring assms(3) by auto
    with step(2) have "loop next_el prev_el (\<lambda>_. Inr q) (visit f) (first_of ms p) (f p a, h) = Some y"
      unfolding A s using e by simp
    from step(1) [OF this] in_ring show False by simp
  qed
qed

lemma range_first_stuck: "load h p = Inl f \<Longrightarrow> range_loop lk bk stop body p (a, h) = Some (Inl f)"
  by (subst range_loop.simps) simp

lemma acl_ends:
  assumes "finds lib m lower same higher" "\<forall>p \<in> set (lower @ same @ higher). off \<le> p" "null \<notin> set (lower @ same @ higher)"
  shows "avl_find_ge_element lib m off + off = (if same @ higher = [] then off else first_of (same @ higher) l)"
    "avl_find_le_element lib m off + off = (if lower @ same = [] then off else last_of (lower @ same) l)"
proof -
  show "avl_find_ge_element lib m off + off = (if same @ higher = [] then off else first_of (same @ higher) l)"
    using assms by (cases same; cases higher) (auto simp: finds_def avl_find_ge_element_def avl_find_at_def)
  show "avl_find_le_element lib m off + off = (if lower @ same = [] then off else last_of (lower @ same) l)"
    using assms last_of_in [of "lower @ same" null] last_of_nonempty [of "lower @ same" l null]
    by (cases "lower @ same = []") (auto simp: finds_def avl_find_le_element_def avl_find_at_def Let_def simp del: last_of_append)
qed

text \<open>
  C20. Looping over the access-control entries for a complete key: when entries match, exactly they are
  visited, in order; when the key falls between two entries, none is. When it is above every entry,
  or there are no entries, the loop starts from a null entry and reads outside the tree. When it is
  below every entry the end of the range is a null entry that no node precedes: the loop runs around
  the tree, through its head, for ever. An incomplete key visits nothing.
\<close>

theorem acl_for_each_exact:
  assumes "list_rep h l (lower @ same @ higher)" "finds lib m lower same higher"
    and "\<forall>p \<in> set (lower @ same @ higher). off \<le> p" "off \<noteq> 0" "h off = None"
  shows "acl_for_each lib off m (visit f) (a, h) =
    (if object m = None \<or> user m = None \<or> group m = None then Some (Inr (a, h))
     else if same \<noteq> [] then Some (Inr (fold f same a, h))
     else if higher = [] then Some (Inl DanglingDeref)
     else if lower = [] then None
     else Some (Inr (a, h)))"
proof (cases "object m = None \<or> user m = None \<or> group m = None")
  case True
  then show ?thesis by (auto simp: acl_for_each_def)
next
  case False
  let ?ge = "avl_find_ge_element lib m off + off" and ?le = "avl_find_le_element lib m off + off"
  have loop: "acl_for_each lib off m (visit f) (a, h) = range_loop next_el prev_el (\<lambda>_. Inr ?le) (visit f) ?ge (a, h)"
    using False by (auto simp: acl_for_each_def avl_for_element_range_def)
  note ends = acl_ends [OF assms(2,3), of l]
  have ge: "?ge = (if same @ higher = [] then off else first_of (same @ higher) l)"
    and le: "?le = (if lower @ same = [] then off else last_of (lower @ same) l)"
    using ends assms(1) by (simp_all add: list_rep_def)
  consider "same \<noteq> []" | "same = []" "higher = []" | "same = []" "higher \<noteq> []" "lower = []" | "same = []" "higher \<noteq> []" "lower \<noteq> []" by blast
  then have "acl_for_each lib off m (visit f) (a, h) =
    (if same \<noteq> [] then Some (Inr (fold f same a, h)) else if higher = [] then Some (Inl DanglingDeref)
     else if lower = [] then None else Some (Inr (a, h)))"
  proof cases
    case 1
    then have "?ge = first_of same (first_of higher l)" "?le = last_of same (last_of lower l)" using ge le by simp_all
    with 1 loop range_forward [OF assms(1), of "\<lambda>_. Inr ?le" f a] show ?thesis by simp
  next
    case 2
    with ge have "?ge = off" by simp
    moreover have "load h off = Inl DanglingDeref" using assms(4,5) by (simp add: load_def)
    ultimately show ?thesis using 2 loop range_first_stuck [of h ?ge DanglingDeref next_el prev_el "\<lambda>_. Inr ?le" "visit f" a] by simp
  next
    case 3
    have "circle h (l # higher)" "null \<notin> set (l # higher)" "off \<notin> set (l # higher)"
      using assms(1,5) 3 circle_alloc [of h "l # higher" off] by (auto simp: list_rep_def)
    moreover have "?ge \<in> set (l # higher)" "?le = off" using ge le 3 first_of_in [of higher l] by auto
    ultimately have "range_loop next_el prev_el (\<lambda>_. Inr ?le) (visit f) ?ge (a, h) = None"
      using range_never_stops [of h "l # higher" off next_el prev_el "\<lambda>_. Inr off" "visit f" ?ge "(a, h)" _ f] by force
    with 3 loop show ?thesis by simp
  next
    case 4
    then have "?ge = first_of [] (first_of higher l)" "?le = last_of [] (last_of lower l)" using ge le by (auto simp: first_of_def split: list.splits)
    with 4 loop range_forward [of h l lower "[]" higher "\<lambda>_. Inr ?le" f a] assms(1) show ?thesis by simp
  qed
  then show ?thesis by (simp only: False if_False)
qed

text \<open>
  The descriptor that came with a request is handed out once: whatever was done before to a request, a second
  call returns -1. Deferring breaks this: the copy is taken with the descriptor still in it, so both
  the original and the deferred request hand it out.
\<close>

lemma caller_fd_once:
  "let (fd1, r1) = ubus_request_get_caller_fd r; (fd2, r2) = ubus_request_get_caller_fd (ubus_request_set_fd x r1) in
     fd1 = req_fd r \<and> fd2 = - 1 \<and> reply_fd r2 = x \<and>
   (let (r, new_req) = ubus_defer_request r in
     deferred r \<and> new_req = r\<lparr>deferred := deferred new_req\<rparr> \<and>
     fst (ubus_request_get_caller_fd r) = fd1 \<and> fst (ubus_request_get_caller_fd new_req) = fd1)"
  by (simp add: ubus_request_get_caller_fd_def ubus_request_set_fd_def ubus_defer_request_def Let_def)

definition acl_example :: "ubus_acl_key avl_searches" where
  "acl_example = \<lparr>avl_find = \<lambda>_. 20, avl_find_lessequal = \<lambda>_. 20, avl_find_greaterequal = \<lambda>_. 20\<rparr>"

theorem acl_for_each_exact_witness:
  "acl_for_each acl_example 8 \<lparr>user = Some ''u'', group = Some ''g'', object = Some ''o''\<rparr> (visit (\<lambda>p a. a @ [p])) ([], list_example) =
     Some (Inr ([20], list_example))"
  using acl_for_each_exact [of list_example 1 "[10]" "[20]" "[]" acl_example "\<lparr>user = Some ''u'', group = Some ''g'', object = Some ''o''\<rparr>" 8
      "\<lambda>p a. a @ [p]" "[]"] list_example_rep(1)
  by (simp add: finds_def acl_example_def list_example_def)

end
