(* ===== verification/Ubus_Server.thy ===== *)
theory Ubus_Server
  imports Libubus
begin

text \<open>
  The ubus server of \<^verbatim>\<open>ubus_example/ubus_server.c\<close>: the method handler, the event handler, the
  reconnection timer and the start-up. The functions of libubus and of libubox that the repository
  only declares are arguments (the message builder, the JSON formatter) or appear as calls in a
  trace. Bytes stand for characters.
\<close>

section \<open>State\<close>

definition bytes_of :: "string \<Rightarrow> u8 list" where
  "bytes_of s = map (\<lambda>c. of_nat (of_char c)) s"

datatype 'b ubus_call =
    SendReply 'b
  | PrintMsg string
  | UbusConnect
  | RegisterEvent string
  | AddObject string
  | Reconnect
  | TimeoutSet nat
  | UloopInit
  | Bus bus_call
  | SetCloexec
  | UbusFree
  | UloopDone

record 'b ubus_server =
  b :: 'b
  calls :: "'b ubus_call list"

definition ucall :: "'b ubus_call \<Rightarrow> 'b ubus_server \<Rightarrow> 'b ubus_server" where
  "ucall c s = s\<lparr>calls := calls s @ [c]\<rparr>"

record ('m, 'b) ubox =
  format_json_with_cb :: "('m, string option) json_formatter"
  buf_init :: "'b \<Rightarrow> u32 \<Rightarrow> int \<times> 'b"
  add_field :: "'b field_writer"

definition devinfo_policy :: blobmsg_policy where
  "devinfo_policy = \<lparr>policy_name = ''devmac'', policy_type = BLOBMSG_TYPE_STRING\<rparr>"

section \<open>Handlers\<close>

text \<open>The formatted message is freed unread.\<close>

definition uproto_get_devinfo :: "byte_order \<Rightarrow> ('m, 'b) ubox \<Rightarrow> 'm \<Rightarrow> 'b ubus_server \<Rightarrow> int \<times> 'b ubus_server" where
  "uproto_get_devinfo bo lib msg s =
     (let str = blobmsg_format_json (format_json_with_cb lib) msg True;
          s = s\<lparr>b := snd (buf_init lib (b s) 0)\<rparr>;
          s = s\<lparr>b := snd (blobmsg_add_string (add_field lib) (b s) (bytes_of ''mac'') (bytes_of ''bufstr''))\<rparr>;
          s = s\<lparr>b := snd (blobmsg_add_u32 bo (add_field lib) (b s) (bytes_of ''rx_rssi'') 66)\<rparr>
      in (0, ucall (SendReply (b s)) s))"

definition ubus_receive_event :: "('m, 'b) ubox \<Rightarrow> string \<Rightarrow> 'm \<Rightarrow> 'b ubus_server \<Rightarrow> 'b ubus_server" where
  "ubus_receive_event lib ty msg s =
     (let s = ucall (PrintMsg ''-----------------[ubus msg]: handler ....-----------------'') s in
      case blobmsg_format_json (format_json_with_cb lib) msg True of
        Some str \<Rightarrow> ucall (PrintMsg (''[ubus msg]: ['' @ str @ '']'')) s
      | None \<Rightarrow> ucall (PrintMsg ''error'') s)"

definition ubus_reconn_timer :: "int \<Rightarrow> 'b ubus_server \<Rightarrow> 'b ubus_server" where
  "ubus_reconn_timer reconnect_ret s =
     (let t = 2; s = ucall Reconnect s in
      if reconnect_ret \<noteq> 0 then ucall (TimeoutSet (t * 1000)) s
      else ucall SetCloexec (ucall (Bus ubus_add_uloop) s))"

definition ubus_connection_lost :: "int \<Rightarrow> 'b ubus_server \<Rightarrow> 'b ubus_server" where
  "ubus_connection_lost reconnect_ret s = ubus_reconn_timer reconnect_ret s"

definition uproto_methods :: "'h \<Rightarrow> 'h ubus_method list" where
  \<comment> \<open>\<open>h\<close> is the handler, \<^verbatim>\<open>uproto_get_devinfo\<close>\<close>
  "uproto_methods h = [\<lparr>method_name = ''methodname'', handler = Some h, mask = 0, tags = 0, policy = [devinfo_policy], n_policy = 1\<rparr>]"

definition uproto_object_type :: "'h \<Rightarrow> 'h ubus_object_type" where
  "uproto_object_type h = UBUS_OBJECT_TYPE ''objectname'' (uproto_methods h)"

definition uproto_object :: "'h \<Rightarrow> 'h ubus_object" where
  "uproto_object h = \<lparr>object_name = ''objectname'', object_id = 0, object_type = uproto_object_type h, has_subscribers = False,
     methods = uproto_methods h, n_methods = int (length (uproto_methods h))\<rparr>"

text \<open>
  Start-up: whether the connection was made, what adding the object returned, and the calls made
  while the event loop ran. Printing the local identifier reads through the context.
\<close>

definition ubus_server_main :: "byte_order \<Rightarrow> bool \<Rightarrow> int \<Rightarrow> ('m, 'b) ubox \<Rightarrow> ('b ubus_server \<Rightarrow> 'b ubus_server) \<Rightarrow> 'b \<Rightarrow> (int \<times> 'b ubus_server) result" where
  "ubus_server_main bo connected ret lib run zero =
     (let s = \<lparr>b = snd (buf_init lib zero 0), calls = []\<rparr>;
          s = ucall UbusConnect s;
          s = ucall (RegisterEvent ''eventname'') s;
          s = ucall (AddObject (object_name (uproto_object (uproto_get_devinfo bo lib)))) s;
          s = (if ret \<noteq> 0 then ucall (PrintMsg ''Failed to add uproto object'') s else s) in
      if \<not> connected then Inl NullDeref
      else
        let s = ucall (PrintMsg ''connected'') s;
            s = ucall SetCloexec (ucall (Bus ubus_add_uloop) (ucall UloopInit s));
            s = run (ucall (Bus uloop_run) s);
            s = ucall UloopDone (ucall UbusFree s)
        in Inr (0, s))"

section \<open>Reconnection\<close>

text \<open>
  The event loop calls the timer again whenever it was armed: the connection is lost, and the
  attempts return the given results.
\<close>

definition armed :: "'b ubus_server \<Rightarrow> bool" where
  "armed s \<longleftrightarrow> last (calls s) = TimeoutSet 2000"

primrec timer_run :: "int list \<Rightarrow> 'b ubus_server \<Rightarrow> 'b ubus_server" where
  "timer_run [] s = s"
| "timer_run (r # rs) s = (if armed s then timer_run rs (ubus_reconn_timer r s) else s)"

fun lost_run :: "int list \<Rightarrow> 'b ubus_server \<Rightarrow> 'b ubus_server" where
  "lost_run [] s = s"
| "lost_run (r # rs) s = timer_run rs (ubus_connection_lost r s)"

lemma ubus_reconn_timer_calls:
  "calls (ubus_reconn_timer r s) = calls s @ (if r \<noteq> 0 then [Reconnect, TimeoutSet 2000] else [Reconnect, Bus ubus_add_uloop, SetCloexec])"
  by (simp add: ubus_reconn_timer_def ucall_def Let_def)

lemma armed_timer: "armed (ubus_reconn_timer r s) \<longleftrightarrow> r \<noteq> 0"
  by (simp add: armed_def ubus_reconn_timer_calls)

lemma timer_run_stops: "timer_run rs (ubus_reconn_timer 0 s) = ubus_reconn_timer 0 s"
  by (cases rs) (simp_all add: armed_timer)

lemma timer_run_calls:
  "\<forall>r \<in> set fails. r \<noteq> 0 \<Longrightarrow> armed s \<Longrightarrow> calls (timer_run (fails @ 0 # rest) s) =
     calls s @ concat (replicate (length fails) [Reconnect, TimeoutSet 2000]) @ [Reconnect, Bus ubus_add_uloop, SetCloexec]"
  by (induction fails arbitrary: s) (simp_all add: ubus_reconn_timer_calls armed_timer timer_run_stops)

text \<open>
  C36. After a lost connection the server tries again every two seconds until an attempt succeeds, and
  not beyond: for any number of failed attempts followed by a successful one there is exactly one
  timer of 2000 ms per failure, the socket is put back into the event loop once, after the success,
  and results that would come later are not asked for.
\<close>

theorem reconnect_until_success:
  assumes "\<forall>r \<in> set fails. r \<noteq> 0"
  shows "calls (lost_run (fails @ 0 # rest) s) =
    calls s @ concat (replicate (length fails) [Reconnect, TimeoutSet 2000]) @ [Reconnect, Bus ubus_add_uloop, SetCloexec]"
proof (cases fails)
  case Nil
  then show ?thesis by (simp add: ubus_connection_lost_def timer_run_stops ubus_reconn_timer_calls)
next
  case (Cons r rs)
  with assms show ?thesis
    using timer_run_calls [of rs "ubus_reconn_timer r s" rest]
    by (simp add: ubus_connection_lost_def armed_timer ubus_reconn_timer_calls)
qed

theorem reconnect_until_success_witness:
  "calls (lost_run [-1, 4, 0, 7] \<lparr>b = (), calls = []\<rparr>) =
   [Reconnect, TimeoutSet 2000, Reconnect, TimeoutSet 2000, Reconnect, Bus ubus_add_uloop, SetCloexec]"
  using reconnect_until_success [where fails = "[-1, 4]" and rest = "[7]" and s = "\<lparr>b = (), calls = []\<rparr>"] by simp

section \<open>The reply\<close>

text \<open>
  The documented behaviour of the message builder: initialising empties the buffer (the fields
  follow the buffer's own header), adding appends a field.
\<close>

definition builds_messages :: "('m, u8 list) ubox \<Rightarrow> bool" where
  "builds_messages lib \<longleftrightarrow> (\<forall>buf i. snd (buf_init lib buf i) = []) \<and> appends_fields (add_field lib)"

definition reply_fields :: "attr list" where
  "reply_fields = [field_attr 3 (bytes_of ''mac'') (bytes_of ''bufstr'' @ [0]), field_attr 5 (bytes_of ''rx_rssi'') (be_bytes 4 (66 :: u32))]"

lemma bytes_of_simps [simp]: "bytes_of [] = []" "bytes_of (c # s) = of_nat (of_char c) # bytes_of s" "length (bytes_of s) = length s"
  by (simp_all add: bytes_of_def)

lemma reply_fields_wf:
  "wf_field 3 (bytes_of ''mac'') (bytes_of ''bufstr'' @ [0])" "wf_field 5 (bytes_of ''rx_rssi'') (be_bytes 4 (66 :: u32))"
  by (simp_all add: wf_field_def)

lemma devinfo_buffer:
  assumes "builds_messages lib"
  shows "uproto_get_devinfo bo lib msg s = (0, s\<lparr>b := concat (map encode_attr reply_fields),
    calls := calls s @ [SendReply (concat (map encode_attr reply_fields))]\<rparr>)"
proof -
  have ap: "appends_fields (add_field lib)" and bi: "\<And>buf i. snd (buf_init lib buf i) = []"
    using assms by (simp_all add: builds_messages_def)
  have "add_field lib [] 3 (bytes_of ''mac'') (bytes_of ''bufstr'' @ [0]) =
      (0, encode_attr (field_attr 3 (bytes_of ''mac'') (bytes_of ''bufstr'' @ [0])))"
    using ap reply_fields_wf(1) unfolding appends_fields_def by simp
  moreover have "add_field lib buf 5 (bytes_of ''rx_rssi'') (be_bytes 4 (66 :: u32)) =
      (0, buf @ encode_attr (field_attr 5 (bytes_of ''rx_rssi'') (be_bytes 4 (66 :: u32))))" for buf
    using ap reply_fields_wf(2) unfolding appends_fields_def by simp
  ultimately show ?thesis
    using bi by (simp add: uproto_get_devinfo_def blobmsg_add_string_def blobmsg_add_u32_def mem_bytes_be ucall_def Let_def reply_fields_def
        del: bytes_of_simps)
qed

lemma reply_content:
  defines "r \<equiv> concat (map encode_attr reply_fields)"
  shows "blob_walk bo r 0 (of_nat (length r)) = Inr [0, 20]" "c_string r (blobmsg_name 0) = Inr (bytes_of ''mac'')"
    "at_data bo r (Some 0) (c_string r) = Inr (bytes_of ''bufstr'')" "c_string r (blobmsg_name 20) = Inr (bytes_of ''rx_rssi'')"
    "blobmsg_get_u32 bo r (Some 20) = Inr 66"
proof -
  let ?f1 = "encode_attr (field_attr 3 (bytes_of ''mac'') (bytes_of ''bufstr'' @ [0]))"
  let ?f2 = "encode_attr (field_attr 5 (bytes_of ''rx_rssi'') (be_bytes 4 (66 :: u32)))"
  have r: "r = [] @ ?f1 @ ?f2" "r = ?f1 @ ?f2 @ []" by (simp_all add: reply_fields_def r_def)
  have len: "length ?f1 = 20" "length ?f2 = 20"
    by (simp_all add: length_encode_attr field_attr_def length_field_payload)
  obtain n1 where n1: "blob_pad_len bo r 0 = Inr n1" "unat n1 = 20"
    using encoded_pad_len [OF wf_field_attr [OF reply_fields_wf(1)], of bo "[]" ?f2] r len by auto
  obtain n2 where n2: "blob_pad_len bo r 20 = Inr n2" "unat n2 = 20"
    using encoded_pad_len [OF wf_field_attr [OF reply_fields_wf(2)], of bo ?f1 "[]"] r len by auto
  have "n1 = 20" "n2 = 20" using n1(2) n2(2) by (simp_all add: word_unat_eq_iff)
  then show "blob_walk bo r 0 (of_nat (length r)) = Inr [0, 20]"
    using n1 n2 len blob_walk_step [of 40 bo r 0 n1] blob_walk_step [of 20 bo r 20 n2]
    by (simp add: r blob_walk.simps [of bo _ _ 0])
  note a1 = field_access [OF reply_fields_wf(1) r(1) refl refl]
  note a2 = field_access [OF reply_fields_wf(2) r(2) refl refl]
  show "c_string r (blobmsg_name 0) = Inr (bytes_of ''mac'')" "c_string r (blobmsg_name 20) = Inr (bytes_of ''rx_rssi'')"
    using a1(2) a2(2) len(1) by simp_all
  obtain u v where "r = u @ (bytes_of ''bufstr'' @ [0]) @ v" "length u = length ([] :: u8 list) + 4 + 4 * ((length (bytes_of ''mac'') + 6) div 4)"
    using a1(5) by blast
  then show "at_data bo r (Some 0) (c_string r) = Inr (bytes_of ''bufstr'')"
    using a1(3) [of bo] c_string_at [of "bytes_of ''bufstr''" u v] by (simp add: at_data_def)
  obtain u v where "r = u @ be_bytes 4 (66 :: u32) @ v" "length u = length ?f1 + 4 + 4 * ((length (bytes_of ''rx_rssi'') + 6) div 4)"
    using a2(5) by blast
  then show "blobmsg_get_u32 bo r (Some 20) = Inr 66"
    using a2(3) [of bo] read_be(2) [of bo u 66 v] len(1) by (simp add: blobmsg_get_u32_def at_data_def)
qed

text \<open>
  C37. Every call of the method is answered, with one reply that does not depend on the request: walking
  over it finds exactly two fields, and reading them gives the string \<^verbatim>\<open>bufstr\<close> under the name \<^verbatim>\<open>mac\<close> and
  66 under \<^verbatim>\<open>rx_rssi\<close>. The requested device is ignored.
\<close>

theorem devinfo_reply:
  assumes "builds_messages lib"
  shows "\<exists>s' reply p q. uproto_get_devinfo bo lib msg s = (0, s') \<and> calls s' = calls s @ [SendReply reply] \<and>
    blob_walk bo reply 0 (of_nat (length reply)) = Inr [p, q] \<and>
    c_string reply (blobmsg_name p) = Inr (bytes_of ''mac'') \<and>
    at_data bo reply (Some p) (c_string reply) = Inr (bytes_of ''bufstr'') \<and>
    c_string reply (blobmsg_name q) = Inr (bytes_of ''rx_rssi'') \<and> blobmsg_get_u32 bo reply (Some q) = Inr 66"
proof -
  let ?r = "concat (map encode_attr reply_fields)"
  show ?thesis
    using devinfo_buffer [OF assms, of bo msg s] reply_content(1,3,5) [of bo] reply_content(2,4)
    by (intro exI [of _ "snd (uproto_get_devinfo bo lib msg s)"] exI [of _ ?r] exI [of _ 0] exI [of _ 20]) simp
qed

theorem devinfo_reply_witness:
  "\<exists>s' reply p q. uproto_get_devinfo Big \<lparr>format_json_with_cb = \<lambda>_ _ _ _ _. None, buf_init = \<lambda>buf i. (0, []),
      add_field = \<lambda>buf ty name data. (0, buf @ encode_attr (field_attr ty name data))\<rparr> () \<lparr>b = [], calls = []\<rparr> = (0, s') \<and>
    calls s' = [SendReply reply] \<and> blob_walk Big reply 0 (of_nat (length reply)) = Inr [p, q] \<and>
    blobmsg_get_u32 Big reply (Some q) = Inr 66"
proof -
  have "builds_messages \<lparr>format_json_with_cb = \<lambda>_ _ _ _ _. None, buf_init = \<lambda>buf i. (0, []),
      add_field = \<lambda>buf ty name data. (0, buf @ encode_attr (field_attr ty name data))\<rparr>"
    by (simp add: builds_messages_def appends_fields_def)
  from devinfo_reply [OF this, of Big "()" "\<lparr>b = [], calls = []\<rparr>"] show ?thesis by fastforce
qed

end
