(* ===== verification/Ubus_Client.thy ===== *)
theory Ubus_Client
  imports Ubus_Server
begin

text \<open>
  The ubus client of \<^verbatim>\<open>ubus_example/ubus_client.c\<close>: the request of \<^verbatim>\<open>main\<close>, the callback that prints a
  reply, and the callback \<^verbatim>\<open>scanreq_prog_cb1\<close> that stores one property of a Thread network and asks
  for the next. The JSON library is an argument; the manager that stores the properties is not part
  of the repository, so what is asked of it is recorded as a list of actions. Formatting a message can fail;
  the callbacks print what they get without a test, and printing through a null pointer is a fault.
\<close>

section \<open>The network properties callback\<close>

datatype otbr_query = NetworkNameQuery | Rloc16Query | PanIdQuery | ExtendPanIdQuery | NetworkKeyQuery | PskcQuery

datatype otbr_action =
    SetPanId int
  | SetNetworkName string
  | SetChannel int
  | SetRloc16 int
  | SetExtendPanId string
  | SetNetworkKey string
  | SetPskc string
  | Ask otbr_query

record ('m, 'j) json_lib =
  format_with_cb :: "('m, string option) json_formatter"
  tokener_parse :: "string \<Rightarrow> 'j option"
  object_get :: "'j \<Rightarrow> string \<Rightarrow> 'j option"
  get_int :: "'j \<Rightarrow> int"
  get_string :: "'j \<Rightarrow> string"

text \<open>
  \<^verbatim>\<open>std::stoi\<close> with base 16: white space, a sign, an optional prefix, as many digits as there are.
  \<open>None\<close> is the exception for no digits or a value outside \<^verbatim>\<open>int\<close>. Where the conversion stopped is
  reported through the second argument and never read.
\<close>

definition hex_digit_value :: "char \<Rightarrow> nat option" where
  "hex_digit_value c = (let n = of_char c in
     if 48 \<le> n \<and> n \<le> 57 then Some (n - 48)
     else if 97 \<le> n \<and> n \<le> 102 then Some (n - 87)
     else if 65 \<le> n \<and> n \<le> 70 then Some (n - 55)
     else None)"

definition hex_number :: "string \<Rightarrow> nat option" where
  "hex_number s = (let ds = takeWhile (\<lambda>c. hex_digit_value c \<noteq> None) s in
     if ds = [] then None else Some (foldl (\<lambda>n c. 16 * n + the (hex_digit_value c)) 0 ds))"

fun skip_prefix :: "string \<Rightarrow> string" where
  "skip_prefix (z # x # d # s) = (if z = CHR ''0'' \<and> x \<in> {CHR ''x'', CHR ''X''} \<and> hex_digit_value d \<noteq> None then d # s else z # x # d # s)"
| "skip_prefix s = s"

definition stoi16 :: "string \<Rightarrow> int option" where
  "stoi16 s =
     (let s = dropWhile (\<lambda>c. c = CHR '' '' \<or> 9 \<le> (of_char c :: nat) \<and> (of_char c :: nat) \<le> 13) s;
          neg = (s \<noteq> [] \<and> hd s = CHR ''-'');
          s = (if s \<noteq> [] \<and> (hd s = CHR ''-'' \<or> hd s = CHR ''+'') then tl s else s) in
      case hex_number (skip_prefix s) of
        None \<Rightarrow> None
      | Some n \<Rightarrow> let v = (if neg then - int n else int n) in if - (2 ^ 31) \<le> v \<and> v < 2 ^ 31 then Some v else None)"

datatype cb_error = UncaughtException | Fault fault

text \<open>\<^verbatim>\<open>printf("%s\n", str)\<close>.\<close>

definition print_string :: "string option \<Rightarrow> string result" where
  "print_string str = (case str of None \<Rightarrow> Inl NullDeref | Some str \<Rightarrow> Inr str)"

text \<open>The chain of lookups: the first key that is present decides what is stored and what is asked next.\<close>

definition store_property :: "('m, 'j) json_lib \<Rightarrow> 'j \<Rightarrow> cb_error + otbr_action list" where
  "store_property lib obj =
     (case object_get lib obj ''PanId'' of Some m \<Rightarrow>
        (case stoi16 (get_string lib m) of None \<Rightarrow> Inl UncaughtException | Some v \<Rightarrow> Inr [SetPanId v, Ask NetworkNameQuery])
      | None \<Rightarrow> case object_get lib obj ''NetworkName'' of Some m \<Rightarrow> Inr [SetNetworkName (get_string lib m), Ask Rloc16Query]
      | None \<Rightarrow> case object_get lib obj ''Channel'' of Some m \<Rightarrow> Inr [SetChannel (get_int lib m), Ask PanIdQuery]
      | None \<Rightarrow> case object_get lib obj ''rloc16'' of Some m \<Rightarrow>
        (case stoi16 (get_string lib m) of None \<Rightarrow> Inl UncaughtException | Some v \<Rightarrow> Inr [SetRloc16 v, Ask ExtendPanIdQuery])
      | None \<Rightarrow> case object_get lib obj ''ExtPanId'' of Some m \<Rightarrow> Inr [SetExtendPanId (get_string lib m), Ask NetworkKeyQuery]
      | None \<Rightarrow> case object_get lib obj ''Networkkey'' of Some m \<Rightarrow> Inr [SetNetworkKey (get_string lib m), Ask PskcQuery]
      | None \<Rightarrow> case object_get lib obj ''pskc'' of Some m \<Rightarrow> Inr [SetPskc (get_string lib m)]
      | None \<Rightarrow> Inr [])"

definition scanreq_prog_cb1 :: "('m, 'j) json_lib \<Rightarrow> 'm option \<Rightarrow> cb_error + otbr_action list" where
  "scanreq_prog_cb1 lib msg =
     (case msg of None \<Rightarrow> Inr []
      | Some msg \<Rightarrow>
          case print_string (blobmsg_format_json_indent (format_with_cb lib) msg True 0) of
            Inl f \<Rightarrow> Inl (Fault f)
          | Inr str \<Rightarrow>
          case tokener_parse lib str of
            None \<Rightarrow> Inr []
          | Some obj \<Rightarrow>
              (case object_get lib obj ''Error'' of
                 None \<Rightarrow> Inr []
               | Some ObjError \<Rightarrow>
                   let errCode = get_int lib ObjError in
                   if errCode = 0 then store_property lib obj else Inr []))"

section \<open>The printing callback and the request\<close>

definition scanreq_prog_cb :: "('m, 'j) json_lib \<Rightarrow> 'm option \<Rightarrow> string list result" where
  "scanreq_prog_cb lib msg =
     (case msg of None \<Rightarrow> Inr []
      | Some msg \<Rightarrow> bindE (print_string (blobmsg_format_json_indent (format_with_cb lib) msg True 0)) (\<lambda>str. Inr [str]))"

datatype 'b client_call = Connect | LookupId string | InvokeFd u32 string 'b nat int

definition ubus_client_main :: "('m, 'b) ubox \<Rightarrow> bool \<Rightarrow> int \<Rightarrow> u32 \<Rightarrow> 'b \<Rightarrow> (int \<times> 'b client_call list) result" where
  \<comment> \<open>whether connecting gave a context, which is not tested before it is used; what the lookup returned and stored\<close>
  "ubus_client_main lib connected ret obj_id zero =
     (if \<not> connected then Inl LibraryMisuse
      else if ret \<noteq> status_code UBUS_STATUS_OK then Inr (ret, [Connect, LookupId ''objectname''])
      else
        let buf = snd (buf_init lib zero 0);
            buf = snd (blobmsg_add_string (add_field lib) buf (bytes_of ''mac'') (bytes_of ''00158D00029F703F''))
        in Inr (0, [Connect, LookupId ''objectname'', ubus_invoke InvokeFd obj_id ''methodname'' buf (1 * 1000)]))"

section \<open>The chain of queries\<close>

primrec key :: "otbr_query \<Rightarrow> string" where
  "key NetworkNameQuery = ''NetworkName''"
| "key Rloc16Query = ''rloc16''"
| "key PanIdQuery = ''PanId''"
| "key ExtendPanIdQuery = ''ExtPanId''"
| "key NetworkKeyQuery = ''Networkkey''"
| "key PskcQuery = ''pskc''"

definition asked :: "otbr_action list \<Rightarrow> otbr_query option" where
  "asked acts = (case acts of [] \<Rightarrow> None | _ \<Rightarrow> (case last acts of Ask q \<Rightarrow> Some q | _ \<Rightarrow> None))"

text \<open>
  The conversation with a network manager that answers every query through the same callback, up to a
  number of replies; \<open>None\<close> when there would be more.
\<close>

fun conversation :: "nat \<Rightarrow> ('m, 'j) json_lib \<Rightarrow> (otbr_query \<Rightarrow> 'm) \<Rightarrow> 'm \<Rightarrow> (cb_error + otbr_action list) option" where
  "conversation 0 lib answer msg = None"
| "conversation (Suc n) lib answer msg =
     (case scanreq_prog_cb1 lib (Some msg) of
        Inl e \<Rightarrow> Some (Inl e)
      | Inr acts \<Rightarrow> (case asked acts of
          None \<Rightarrow> Some (Inr acts)
        | Some q \<Rightarrow> map_option (\<lambda>r. case r of Inl e \<Rightarrow> Inl e | Inr rest \<Rightarrow> Inr (acts @ rest)) (conversation n lib answer (answer q))))"

definition property_keys :: "string list" where
  "property_keys = [''PanId'', ''NetworkName'', ''Channel'', ''rloc16'', ''ExtPanId'', ''Networkkey'', ''pskc'']"

text \<open>A reply that can be formatted, reports no error and carries exactly the property \<open>k\<close>.\<close>

definition carries :: "('m, 'j) json_lib \<Rightarrow> 'm \<Rightarrow> string \<Rightarrow> 'j \<Rightarrow> bool" where
  "carries lib msg k v \<longleftrightarrow> (\<exists>str obj e. blobmsg_format_json_indent (format_with_cb lib) msg True 0 = Some str \<and> tokener_parse lib str = Some obj \<and>
     object_get lib obj ''Error'' = Some e \<and> get_int lib e = 0 \<and>
     (\<forall>k' \<in> set property_keys. object_get lib obj k' = (if k' = k then Some v else None)))"

lemma callback_on:
  assumes "carries lib msg k v"
  shows "k = ''PanId'' \<Longrightarrow> scanreq_prog_cb1 lib (Some msg) = (case stoi16 (get_string lib v) of None \<Rightarrow> Inl UncaughtException | Some n \<Rightarrow> Inr [SetPanId n, Ask NetworkNameQuery])"
    and "k = ''NetworkName'' \<Longrightarrow> scanreq_prog_cb1 lib (Some msg) = Inr [SetNetworkName (get_string lib v), Ask Rloc16Query]"
    and "k = ''Channel'' \<Longrightarrow> scanreq_prog_cb1 lib (Some msg) = Inr [SetChannel (get_int lib v), Ask PanIdQuery]"
    and "k = ''rloc16'' \<Longrightarrow> scanreq_prog_cb1 lib (Some msg) = (case stoi16 (get_string lib v) of None \<Rightarrow> Inl UncaughtException | Some n \<Rightarrow> Inr [SetRloc16 n, Ask ExtendPanIdQuery])"
    and "k = ''ExtPanId'' \<Longrightarrow> scanreq_prog_cb1 lib (Some msg) = Inr [SetExtendPanId (get_string lib v), Ask NetworkKeyQuery]"
    and "k = ''Networkkey'' \<Longrightarrow> scanreq_prog_cb1 lib (Some msg) = Inr [SetNetworkKey (get_string lib v), Ask PskcQuery]"
    and "k = ''pskc'' \<Longrightarrow> scanreq_prog_cb1 lib (Some msg) = Inr [SetPskc (get_string lib v)]"
  using assms by (auto simp: carries_def property_keys_def scanreq_prog_cb1_def print_string_def store_property_def Let_def)

text \<open>
  C38. From a reply with the channel on, a manager that answers every query, with replies that can be formatted, is led through all seven
  network properties: each is stored exactly once, in the order channel, PAN identifier, name,
  RLOC16, extended PAN identifier, key, PSKc, and after seven replies the conversation ends. The only
  way for it to break off is an identifier that is not a hexadecimal number in range, which escapes
  as an exception.
\<close>

theorem otbr_conversation:
  assumes "carries lib first ''Channel'' ch" and "\<And>q. carries lib (answer q) (key q) (val q)"
  shows "conversation 7 lib answer first =
    (case stoi16 (get_string lib (val PanIdQuery)) of None \<Rightarrow> Some (Inl UncaughtException)
     | Some pan \<Rightarrow> case stoi16 (get_string lib (val Rloc16Query)) of None \<Rightarrow> Some (Inl UncaughtException)
     | Some rloc \<Rightarrow> Some (Inr [SetChannel (get_int lib ch), Ask PanIdQuery, SetPanId pan, Ask NetworkNameQuery,
         SetNetworkName (get_string lib (val NetworkNameQuery)), Ask Rloc16Query, SetRloc16 rloc, Ask ExtendPanIdQuery,
         SetExtendPanId (get_string lib (val ExtendPanIdQuery)), Ask NetworkKeyQuery,
         SetNetworkKey (get_string lib (val NetworkKeyQuery)), Ask PskcQuery, SetPskc (get_string lib (val PskcQuery))]))"
proof -
  note cb = callback_on(1) [OF assms(2) [of PanIdQuery]] callback_on(2) [OF assms(2) [of NetworkNameQuery]]
    callback_on(3) [OF assms(1)] callback_on(4) [OF assms(2) [of Rloc16Query]] callback_on(5) [OF assms(2) [of ExtendPanIdQuery]]
    callback_on(6) [OF assms(2) [of NetworkKeyQuery]] callback_on(7) [OF assms(2) [of PskcQuery]]
  show ?thesis using cb by (simp add: numeral_eq_Suc asked_def split: option.splits)
qed

text \<open>A library whose values are numbers, strings and association lists.\<close>

datatype jv = JInt int | JStr string | JObj "(string \<times> jv) list"

definition example_lib :: "(jv, jv) json_lib" where
  "example_lib = \<lparr>format_with_cb = \<lambda>m _ _ _ _. (case m of JObj ((k, _) # _) \<Rightarrow> Some k | _ \<Rightarrow> None),
     tokener_parse = \<lambda>k. Some (JObj [(k, if k = ''Channel'' then JInt 15 else JStr ''0xFA1B''), (''Error'', JInt 0)]),
     object_get = \<lambda>j k. (case j of JObj kvs \<Rightarrow> map_of kvs k | _ \<Rightarrow> None),
     get_int = \<lambda>j. (case j of JInt n \<Rightarrow> n | _ \<Rightarrow> 0), get_string = \<lambda>j. (case j of JStr s \<Rightarrow> s | _ \<Rightarrow> [])\<rparr>"

lemma example_lib_carries: "carries example_lib (JObj [(''Channel'', JInt 0)]) ''Channel'' (JInt 15)"
    "carries example_lib (JObj [(key q, JInt 0)]) (key q) (JStr ''0xFA1B'')"
proof -
  show "carries example_lib (JObj [(''Channel'', JInt 0)]) ''Channel'' (JInt 15)"
    unfolding carries_def
    by (rule exI [of _ "''Channel''"], rule exI [of _ "JObj [(''Channel'', JInt 15), (''Error'', JInt 0)]"], rule exI [of _ "JInt 0"])
      (simp add: example_lib_def property_keys_def blobmsg_format_json_indent_def)
  show "carries example_lib (JObj [(key q, JInt 0)]) (key q) (JStr ''0xFA1B'')"
    unfolding carries_def
    by (rule exI [of _ "key q"], rule exI [of _ "JObj [(key q, JStr ''0xFA1B''), (''Error'', JInt 0)]"], rule exI [of _ "JInt 0"])
      (cases q; simp add: example_lib_def property_keys_def blobmsg_format_json_indent_def)
qed

lemma stoi16_example: "stoi16 ''0xFA1B'' = Some 0xFA1B"
  by (simp add: stoi16_def hex_number_def hex_digit_value_def Let_def)

theorem otbr_conversation_witness:
  "conversation 7 example_lib (\<lambda>q. JObj [(key q, JInt 0)]) (JObj [(''Channel'', JInt 0)]) =
    Some (Inr [SetChannel 15, Ask PanIdQuery, SetPanId 0xFA1B, Ask NetworkNameQuery, SetNetworkName ''0xFA1B'', Ask Rloc16Query,
      SetRloc16 0xFA1B, Ask ExtendPanIdQuery, SetExtendPanId ''0xFA1B'', Ask NetworkKeyQuery, SetNetworkKey ''0xFA1B'', Ask PskcQuery,
      SetPskc ''0xFA1B''])"
proof -
  have get: "get_string example_lib (JStr s) = s" "get_int example_lib (JInt n) = n" for s n
    by (simp_all add: example_lib_def)
  show ?thesis
    using otbr_conversation [OF example_lib_carries]
    by (simp only: get stoi16_example option.case)
qed

end
