(* ===== verification/Mdns.thy ===== *)
theory Mdns
  imports Prelude
begin

text \<open>
  The mDNS receiver of \<^verbatim>\<open>mdns_parse_example\<close>: \<^verbatim>\<open>MdnsMessage\<close> collects the records of one packet,
  \<^verbatim>\<open>MdnsParser\<close> runs the packet parser over it and reports to a delegate, \<^verbatim>\<open>MDNSResolve\<close> wires them up.
  The Matter SDK is not part of the repository: its packet and record parsers, the sizes of its
  buffers, its bounded copy of a host name and the fields it fills from TXT records are arguments. Logging is
  left out, except where the program itself prints a character array that need not be terminated.
\<close>

section \<open>Printing names of types\<close>

datatype QType = A | NS | CNAME | SOA | WKS | PTR | MX | SRV | AAAA | ANY | TXT | OtherQType int
datatype QClass = IN_UNICAST | IN | OtherQClass int
datatype ResourceType = kAnswer | kAdditional | kAuthority | OtherResourceType int

text \<open>\<^verbatim>\<open>%d\<close> of \<^verbatim>\<open>sprintf\<close>.\<close>

function decimal :: "nat \<Rightarrow> string" where
  "decimal n = (if n < 10 then [char_of (48 + n)] else decimal (n div 10) @ [char_of (48 + n mod 10)])"
  by pat_completeness auto
termination
  by (relation "measure id") auto

declare decimal.simps [simp del]

definition percent_d :: "int \<Rightarrow> string" where
  "percent_d i = (if i < 0 then ''-'' @ decimal (nat (- i)) else decimal (nat i))"

definition unknown :: "int \<Rightarrow> string" where
  "unknown i = ''UNKNOWN ('' @ percent_d i @ '')!!''"

primrec ToString_QType :: "QType \<Rightarrow> string" where
  "ToString_QType A = ''A''"
| "ToString_QType NS = ''NS''"
| "ToString_QType CNAME = ''CNAME''"
| "ToString_QType SOA = ''SOA''"
| "ToString_QType WKS = ''WKS''"
| "ToString_QType PTR = ''PTR''"
| "ToString_QType MX = ''MX''"
| "ToString_QType SRV = ''SRV''"
| "ToString_QType AAAA = ''AAAA''"
| "ToString_QType ANY = ''ANY''"
| "ToString_QType TXT = ''TXT''"
| "ToString_QType (OtherQType i) = unknown i"

primrec ToString_QClass :: "QClass \<Rightarrow> string" where
  "ToString_QClass IN_UNICAST = ''IN(UNICAST)''"
| "ToString_QClass IN = ''IN''"
| "ToString_QClass (OtherQClass i) = unknown i"

primrec ToString_ResourceType :: "ResourceType \<Rightarrow> string" where
  "ToString_ResourceType kAnswer = ''ANSWER''"
| "ToString_ResourceType kAdditional = ''ADDITIONAL''"
| "ToString_ResourceType kAuthority = ''AUTHORITY''"
| "ToString_ResourceType (OtherResourceType i) = unknown i"

section \<open>Names\<close>

text \<open>
  An iterator over a serialized name is given by the labels that it will still yield and by whether
  it ends validly.
\<close>

record qname =
  labels :: "string list"
  ends_valid :: bool

definition Next :: "qname \<Rightarrow> (string \<times> qname) option" where
  "Next it = (case labels it of [] \<Rightarrow> None | l # ls \<Rightarrow> Some (l, it\<lparr>labels := ls\<rparr>))"

function HasQNamePart :: "qname \<Rightarrow> string \<Rightarrow> bool" where
  "HasQNamePart name part =
     (case Next name of
        None \<Rightarrow> False
      | Some (v, name) \<Rightarrow> if v = part then True else HasQNamePart name part)"
  by pat_completeness auto
termination
  by (relation "measure (\<lambda>(it, _). length (labels it))") (auto simp: Next_def split: list.splits)

function PrintQName :: "qname \<Rightarrow> string" where
  "PrintQName it =
     (case Next it of
        None \<Rightarrow> (if \<not> ends_valid it then ''   (INVALID!)'' else []) @ [CHR 0x0A]
      | Some (v, it) \<Rightarrow> v @ ''.'' @ PrintQName it)"
  by pat_completeness auto
termination
  by (relation "measure (\<lambda>it. length (labels it))") (auto simp: Next_def split: list.splits)

declare HasQNamePart.simps [simp del] PrintQName.simps [simp del]

section \<open>Messages\<close>

record ('ip, 't) DiscoveredNodeData =
  hostName :: string
  instanceName :: "char list"
  port :: u16
  ipAddress :: "'ip list"
  interfaceId :: "nat list"
  numIPs :: nat
  txt_fields :: 't

record ('ip, 'p, 'u) ResolvedNodeData =
  mHostName :: string
  mPeerId :: 'p
  mPort :: u16
  mAddress :: 'ip
  node_interface :: nat
  node_txt_fields :: 'u

record SrvRecord =
  srv_name :: qname
  srv_port :: u16

record 'd ResourceData =
  rtype :: QType
  rname :: qname
  rdata :: 'd

datatype 'd event = Header | Query | Resource ResourceType "'d ResourceData"

text \<open>What the SDK supplies; the packet is in scope of every record parser and not repeated.\<close>

record ('pkt, 'd, 'ip, 'p, 't, 'u) mdns_lib =
  ParsePacket :: "'pkt \<Rightarrow> 'd event list \<times> bool"
  srv_Parse :: "'d \<Rightarrow> bool \<times> SrvRecord"
  ParsePtrRecord :: "'d \<Rightarrow> qname"
  ParseTxtRecord :: "'d \<Rightarrow> (string \<times> string) list"
  ParseARecord :: "'d \<Rightarrow> 'ip option"
  ParseAAAARecord :: "'d \<Rightarrow> 'ip option"
  ExtractIdFromInstanceName :: "string \<Rightarrow> 'p \<Rightarrow> bool \<times> 'p"
  FillDiscoveredFromTxt :: "string \<Rightarrow> string \<Rightarrow> 't \<Rightarrow> 't"
  FillNodeFromTxt :: "string \<Rightarrow> string \<Rightarrow> 'u \<Rightarrow> 'u"
  IsValid :: "('ip, 't) DiscoveredNodeData \<Rightarrow> bool"
  fresh_discovered :: "('ip, 't) DiscoveredNodeData"
  fresh_node :: "('ip, 'p, 'u) ResolvedNodeData"
  kMaxIPAddresses :: nat
  CopyString :: "string \<Rightarrow> string"
  kOperationalServiceName :: string
  kCommissionableServiceName :: string
  kCommissionerServiceName :: string

record ('ip, 'p, 't, 'u) MdnsMessage =
  has_delegate :: bool
  mDiscoveredNodeData :: "('ip, 't) DiscoveredNodeData"
  mNodeData :: "('ip, 'p, 'u) ResolvedNodeData"
  mInterfaceId :: nat
  mValid :: bool
  mHasNodePort :: bool
  mHasIP :: bool
  mOperationalSrvFlag :: bool

datatype ('ip, 'p, 't, 'u) report =
    NodeDiscoveryComplete "('ip, 't) DiscoveredNodeData"
  | NodeIdResolved "('ip, 'p, 'u) ResolvedNodeData"

definition new_MdnsMessage :: "('pkt, 'd, 'ip, 'p, 't, 'u) mdns_lib \<Rightarrow> bool \<Rightarrow> nat \<Rightarrow> ('ip, 'p, 't, 'u) MdnsMessage" where
  "new_MdnsMessage lib delegate interface =
     \<lparr>has_delegate = delegate, mDiscoveredNodeData = fresh_discovered lib,
      mNodeData = (fresh_node lib)\<lparr>node_interface := interface\<rparr>, mInterfaceId = interface,
      mValid = False, mHasNodePort = False, mHasIP = False, mOperationalSrvFlag = False\<rparr>"

text \<open>
  \<^verbatim>\<open>strncpy\<close> with the size of its destination fills it, and terminates only what is shorter. Printing with \<^verbatim>\<open>%s\<close> reads to
  the terminator, so an array without one is read past its end.
\<close>

definition strncpy :: "char list \<Rightarrow> string \<Rightarrow> char list" where
  "strncpy buf s = (let s = takeWhile (\<lambda>c. c \<noteq> CHR 0x00) s in take (length buf) s @ replicate (length buf - length s) (CHR 0x00))"

definition printf_s :: "char list \<Rightarrow> string result" where
  "printf_s buf = (if CHR 0x00 \<in> set buf then Inr (takeWhile (\<lambda>c. c \<noteq> CHR 0x00) buf) else Inl OutOfBounds)"

definition OnRecord_discovered :: "('pkt, 'd, 'ip, 'p, 't, 'u) mdns_lib \<Rightarrow> string \<times> string \<Rightarrow> ('ip, 't) DiscoveredNodeData \<Rightarrow> ('ip, 't) DiscoveredNodeData" where
  "OnRecord_discovered lib r d = d\<lparr>txt_fields := FillDiscoveredFromTxt lib (fst r) (snd r) (txt_fields d)\<rparr>"

definition OnRecord_node :: "('pkt, 'd, 'ip, 'p, 't, 'u) mdns_lib \<Rightarrow> string \<times> string \<Rightarrow> ('ip, 'p, 'u) ResolvedNodeData \<Rightarrow> ('ip, 'p, 'u) ResolvedNodeData" where
  "OnRecord_node lib r n = n\<lparr>node_txt_fields := FillNodeFromTxt lib (fst r) (snd r) (node_txt_fields n)\<rparr>"

definition OnComplete :: "('pkt, 'd, 'ip, 'p, 't, 'u) mdns_lib \<Rightarrow> ('ip, 'p, 't, 'u) MdnsMessage \<Rightarrow> ('ip, 'p, 't, 'u) report list result" where
  "OnComplete lib m =
     (if IsValid lib (mDiscoveredNodeData m) then
        (if has_delegate m then Inr [NodeDiscoveryComplete (mDiscoveredNodeData m)] else Inl NullDeref)
      else if mHasIP m \<and> mHasNodePort m then
        (if has_delegate m then Inr [NodeIdResolved (mNodeData m)] else Inl NullDeref)
      else Inr [])"

definition OnOperationalSrvRecord :: "('pkt, 'd, 'ip, 'p, 't, 'u) mdns_lib \<Rightarrow> qname \<Rightarrow> SrvRecord \<Rightarrow> ('ip, 'p, 't, 'u) MdnsMessage \<Rightarrow> ('ip, 'p, 't, 'u) MdnsMessage" where
  "OnOperationalSrvRecord lib name srv m =
     (let m = (case Next (srv_name srv) of
                 Some (v, _) \<Rightarrow> m\<lparr>mNodeData := (mNodeData m)\<lparr>mHostName := CopyString lib v\<rparr>\<rparr>
               | None \<Rightarrow> m) in
      case Next name of
        None \<Rightarrow> m\<lparr>mHasNodePort := False\<rparr>
      | Some (v, _) \<Rightarrow>
          let (ok, peer) = ExtractIdFromInstanceName lib v (mPeerId (mNodeData m));
              m = m\<lparr>mNodeData := (mNodeData m)\<lparr>mPeerId := peer\<rparr>\<rparr> in
          if \<not> ok then m\<lparr>mHasNodePort := False\<rparr>
          else m\<lparr>mNodeData := (mNodeData m)\<lparr>mPort := srv_port srv\<rparr>, mHasNodePort := True\<rparr>)"

definition OnCommissionableNodeSrvRecord :: "('pkt, 'd, 'ip, 'p, 't, 'u) mdns_lib \<Rightarrow> qname \<Rightarrow> SrvRecord \<Rightarrow> ('ip, 'p, 't, 'u) MdnsMessage \<Rightarrow> ('ip, 'p, 't, 'u) MdnsMessage result" where
  "OnCommissionableNodeSrvRecord lib name srv m =
     (let d = mDiscoveredNodeData m;
          d = (case Next (srv_name srv) of Some (v, _) \<Rightarrow> d\<lparr>hostName := CopyString lib v\<rparr> | None \<Rightarrow> d);
          d = (case Next name of Some (v, _) \<Rightarrow> d\<lparr>instanceName := strncpy (instanceName d) v\<rparr> | None \<Rightarrow> d);
          d = d\<lparr>port := srv_port srv\<rparr>
      in bindE (printf_s (instanceName d)) (\<lambda>_. Inr (m\<lparr>mDiscoveredNodeData := d\<rparr>)))"

definition OnOperationalIPAddress :: "'ip \<Rightarrow> ('ip, 'p, 't, 'u) MdnsMessage \<Rightarrow> ('ip, 'p, 't, 'u) MdnsMessage" where
  "OnOperationalIPAddress addr m = m\<lparr>mNodeData := (mNodeData m)\<lparr>mAddress := addr\<rparr>, mHasIP := True\<rparr>"

definition OnDiscoveredNodeIPAddress :: "('pkt, 'd, 'ip, 'p, 't, 'u) mdns_lib \<Rightarrow> 'ip \<Rightarrow> ('ip, 'p, 't, 'u) MdnsMessage \<Rightarrow> ('ip, 'p, 't, 'u) MdnsMessage result" where
  "OnDiscoveredNodeIPAddress lib addr m =
     (let d = mDiscoveredNodeData m; i = numIPs d in
      if i \<ge> kMaxIPAddresses lib then Inr m
      else if i \<ge> length (ipAddress d) \<or> i \<ge> length (interfaceId d) then Inl OutOfBounds
      else Inr (m\<lparr>mDiscoveredNodeData := d\<lparr>ipAddress := (ipAddress d)[i := addr],
                   interfaceId := (interfaceId d)[i := mInterfaceId m], numIPs := Suc i\<rparr>\<rparr>))"

definition OnHeader :: "('ip, 'p, 't, 'u) MdnsMessage \<Rightarrow> ('ip, 'p, 't, 'u) MdnsMessage" where
  \<comment> \<open>returns before its only statement\<close>
  "OnHeader m = m"

definition OnQuery :: "('ip, 'p, 't, 'u) MdnsMessage \<Rightarrow> ('ip, 'p, 't, 'u) MdnsMessage" where
  "OnQuery m = m"

definition operational :: "('pkt, 'd, 'ip, 'p, 't, 'u) mdns_lib \<Rightarrow> qname \<Rightarrow> bool" where
  "operational lib name = HasQNamePart name (kOperationalServiceName lib)"

definition commissionable :: "('pkt, 'd, 'ip, 'p, 't, 'u) mdns_lib \<Rightarrow> qname \<Rightarrow> bool" where
  "commissionable lib name \<longleftrightarrow> HasQNamePart name (kCommissionableServiceName lib) \<or> HasQNamePart name (kCommissionerServiceName lib)"

definition on_address :: "('pkt, 'd, 'ip, 'p, 't, 'u) mdns_lib \<Rightarrow> qname \<Rightarrow> 'ip option \<Rightarrow> ('ip, 'p, 't, 'u) MdnsMessage \<Rightarrow> ('ip, 'p, 't, 'u) MdnsMessage result" where
  \<comment> \<open>the two branches for A and AAAA records differ in the parser only\<close>
  "on_address lib name parsed m =
     (case parsed of
        None \<Rightarrow> Inr (m\<lparr>mHasIP := False\<rparr>)
      | Some addr \<Rightarrow>
          if operational lib name then Inr (OnOperationalIPAddress addr m)
          else if commissionable lib name then OnDiscoveredNodeIPAddress lib addr m
          else Inr m)"

definition OnResource :: "('pkt, 'd, 'ip, 'p, 't, 'u) mdns_lib \<Rightarrow> 'd ResourceData \<Rightarrow> ('ip, 'p, 't, 'u) MdnsMessage \<Rightarrow> ('ip, 'p, 't, 'u) MdnsMessage result" where
  "OnResource lib r m =
     (case rtype r of
        SRV \<Rightarrow>
          let srv = snd (srv_Parse lib (rdata r)) in \<comment> \<open>a failed parse is reported and the record used all the same\<close>
          if operational lib (rname r) then Inr (OnOperationalSrvRecord lib (rname r) srv m)
          else if commissionable lib (rname r) then OnCommissionableNodeSrvRecord lib (rname r) srv m
          else Inr m
      | PTR \<Rightarrow>
          Inr (case Next (ParsePtrRecord lib (rdata r)) of
                 Some (v, _) \<Rightarrow> m\<lparr>mDiscoveredNodeData := (mDiscoveredNodeData m)\<lparr>instanceName := strncpy (instanceName (mDiscoveredNodeData m)) v\<rparr>\<rparr>
               | None \<Rightarrow> m)
      | TXT \<Rightarrow>
          Inr (if commissionable lib (rname r) then
                 m\<lparr>mDiscoveredNodeData := fold (OnRecord_discovered lib) (ParseTxtRecord lib (rdata r)) (mDiscoveredNodeData m)\<rparr>
               else if operational lib (rname r) then
                 m\<lparr>mNodeData := fold (OnRecord_node lib) (ParseTxtRecord lib (rdata r)) (mNodeData m)\<rparr>
               else m)
      | A \<Rightarrow> on_address lib (rname r) (ParseARecord lib (rdata r)) m
      | AAAA \<Rightarrow> on_address lib (rname r) (ParseAAAARecord lib (rdata r)) m
      | _ \<Rightarrow> Inr m)"

section \<open>The parser object and its set-up\<close>

definition on_event :: "('pkt, 'd, 'ip, 'p, 't, 'u) mdns_lib \<Rightarrow> 'd event \<Rightarrow> ('ip, 'p, 't, 'u) MdnsMessage \<Rightarrow> ('ip, 'p, 't, 'u) MdnsMessage result" where
  \<comment> \<open>the virtual calls of \<^verbatim>\<open>ParserDelegate\<close>\<close>
  "on_event lib e m = (case e of Header \<Rightarrow> Inr (OnHeader m) | Query \<Rightarrow> Inr (OnQuery m) | Resource _ r \<Rightarrow> OnResource lib r m)"

record MdnsParser =
  mDelegate :: bool

definition OnMdnsPacketData :: "('pkt, 'd, 'ip, 'p, 't, 'u) mdns_lib \<Rightarrow> 'pkt \<Rightarrow> nat option \<Rightarrow> MdnsParser \<Rightarrow> ('ip, 'p, 't, 'u) report list result" where
  \<comment> \<open>\<open>info\<close> is a pointer; of what it points to only the interface is used\<close>
  "OnMdnsPacketData lib data info p =
     (case info of
        None \<Rightarrow> Inl NullDeref
      | Some interface \<Rightarrow>
          let (evs, ok) = ParsePacket lib data in
          bindE (foldE (on_event lib) evs (new_MdnsMessage lib (mDelegate p) interface)) (\<lambda>m.
          if \<not> ok then Inr [] else OnComplete lib m))"

datatype server_call = SetQueryDelegate | SetResponseDelegate | Shutdown | StartServer nat

record mdns_app =
  gpMdnsParser :: "MdnsParser option"
  server_calls :: "server_call list"

definition new_MdnsParser :: "mdns_app \<Rightarrow> MdnsParser \<times> mdns_app" where
  "new_MdnsParser g = (\<lparr>mDelegate = False\<rparr>, g\<lparr>server_calls := server_calls g @ [SetQueryDelegate, SetResponseDelegate]\<rparr>)"

definition create :: "mdns_app \<Rightarrow> mdns_app" where
  "create g = (case gpMdnsParser g of
     None \<Rightarrow> (let (p, g) = new_MdnsParser g in g\<lparr>gpMdnsParser := Some p\<rparr>)
   | Some _ \<Rightarrow> g)"

definition Instance :: "mdns_app \<Rightarrow> MdnsParser option" where
  "Instance g = gpMdnsParser g"

definition Start :: "(nat \<Rightarrow> int) \<Rightarrow> nat \<Rightarrow> mdns_app \<Rightarrow> int \<times> mdns_app" where
  \<comment> \<open>\<open>start p\<close> is the error code of starting the server on port \<open>p\<close>, 0 for none\<close>
  "Start start p g = (start p, g\<lparr>server_calls := server_calls g @ [Shutdown, StartServer p]\<rparr>)"

definition SetResolverDelegate :: "bool \<Rightarrow> mdns_app \<Rightarrow> mdns_app result" where
  "SetResolverDelegate delegate g = (case Instance g of
     None \<Rightarrow> Inl NullDeref
   | Some p \<Rightarrow> Inr (g\<lparr>gpMdnsParser := Some (p\<lparr>mDelegate := delegate\<rparr>)\<rparr>))"

definition kMdnsPort :: nat where
  "kMdnsPort = 5353"

definition mdns_init :: "(nat \<Rightarrow> int) \<Rightarrow> mdns_app \<Rightarrow> (int \<times> mdns_app) result" where
  "mdns_init start g =
     (let g = create g; g = snd (Start start kMdnsPort g) in
      bindE (SetResolverDelegate False g) (\<lambda>g.
      bindE (SetResolverDelegate True g) (\<lambda>g. Inr (0, g))))"

section \<open>What a packet adds up to\<close>

text \<open>
  What the theorems rely on of the SDK: the address arrays of a fresh record have the declared length
  and are empty, and whether a peer identifier can be extracted depends on the name alone.
\<close>

definition sdk_ok :: "('pkt, 'd, 'ip, 'p, 't, 'u) mdns_lib \<Rightarrow> bool" where
  "sdk_ok lib \<longleftrightarrow>
     length (ipAddress (fresh_discovered lib)) = kMaxIPAddresses lib \<and>
     length (interfaceId (fresh_discovered lib)) = kMaxIPAddresses lib \<and>
     numIPs (fresh_discovered lib) = 0 \<and>
     (\<forall>s p q. fst (ExtractIdFromInstanceName lib s p) = fst (ExtractIdFromInstanceName lib s q))"

definition parsed_address :: "('pkt, 'd, 'ip, 'p, 't, 'u) mdns_lib \<Rightarrow> 'd ResourceData \<Rightarrow> 'ip option option" where
  "parsed_address lib r = (case rtype r of A \<Rightarrow> Some (ParseARecord lib (rdata r)) | AAAA \<Rightarrow> Some (ParseAAAARecord lib (rdata r)) | _ \<Rightarrow> None)"

text \<open>The address that an event adds to the discovered node.\<close>

definition discovered :: "('pkt, 'd, 'ip, 'p, 't, 'u) mdns_lib \<Rightarrow> 'd event \<Rightarrow> 'ip list" where
  "discovered lib e = (case e of
     Resource _ r \<Rightarrow>
       if \<not> operational lib (rname r) \<and> commissionable lib (rname r)
       then (case parsed_address lib r of Some (Some a) \<Rightarrow> [a] | _ \<Rightarrow> []) else []
   | _ \<Rightarrow> [])"

text \<open>
  The event whose instance name is printed without a terminator: a service record of a node that is
  commissionable and not operational, the first label of which fills the array of the instance name.
\<close>

definition overlong :: "('pkt, 'd, 'ip, 'p, 't, 'u) mdns_lib \<Rightarrow> 'd event \<Rightarrow> bool" where
  "overlong lib e = (case e of
     Resource _ r \<Rightarrow> rtype r = SRV \<and> \<not> operational lib (rname r) \<and> commissionable lib (rname r) \<and>
       length (instanceName (fresh_discovered lib)) \<le> length (takeWhile (\<lambda>c. c \<noteq> CHR 0x00) (hd (labels (rname r))))
   | _ \<Rightarrow> False)"

text \<open>What an event says about the address and the port of an operational node: good, bad or nothing.\<close>

definition ip_verdict :: "('pkt, 'd, 'ip, 'p, 't, 'u) mdns_lib \<Rightarrow> 'd event \<Rightarrow> bool option" where
  "ip_verdict lib e = (case e of
     Resource _ r \<Rightarrow> (case parsed_address lib r of
         Some None \<Rightarrow> Some False
       | Some (Some _) \<Rightarrow> if operational lib (rname r) then Some True else None
       | None \<Rightarrow> None)
   | _ \<Rightarrow> None)"

definition port_verdict :: "('pkt, 'd, 'ip, 'p, 't, 'u) mdns_lib \<Rightarrow> 'd event \<Rightarrow> bool option" where
  "port_verdict lib e = (case e of
     Resource _ r \<Rightarrow>
       if rtype r = SRV \<and> operational lib (rname r)
       then Some (fst (ExtractIdFromInstanceName lib (hd (labels (rname r))) (mPeerId (fresh_node lib)))) else None
   | _ \<Rightarrow> None)"

definition last_verdict_good :: "('e \<Rightarrow> bool option) \<Rightarrow> 'e list \<Rightarrow> bool" where
  "last_verdict_good v es \<longleftrightarrow> (\<exists>xs e ys. es = xs @ e # ys \<and> v e = Some True \<and> (\<forall>y \<in> set ys. v y = None \<or> v y = Some True))"

lemma last_verdict_Nil: "\<not> last_verdict_good v []"
  by (simp add: last_verdict_good_def)

lemma last_verdict_snoc:
  "last_verdict_good v (es @ [e]) \<longleftrightarrow> (case v e of None \<Rightarrow> last_verdict_good v es | Some g \<Rightarrow> g)"
proof -
  have "last_verdict_good v (es @ [e]) \<longleftrightarrow> v e = Some True \<or> (v e = None \<or> v e = Some True) \<and> last_verdict_good v es"
  proof
    assume "last_verdict_good v (es @ [e])"
    then obtain xs f ys where *: "es @ [e] = xs @ f # ys" "v f = Some True" "\<forall>y \<in> set ys. v y = None \<or> v y = Some True"
      unfolding last_verdict_good_def by blast
    show "v e = Some True \<or> (v e = None \<or> v e = Some True) \<and> last_verdict_good v es"
    proof (cases ys rule: rev_cases)
      case Nil
      with * show ?thesis by simp
    next
      case (snoc zs z)
      with * have "es = xs @ f # zs" "z = e" by simp_all
      with * snoc show ?thesis unfolding last_verdict_good_def by auto
    qed
  next
    assume *: "v e = Some True \<or> (v e = None \<or> v e = Some True) \<and> last_verdict_good v es"
    show "last_verdict_good v (es @ [e])"
    proof (cases "v e = Some True")
      case True
      then show ?thesis unfolding last_verdict_good_def by (intro exI [of _ es] exI [of _ e] exI [of _ "[]"]) simp
    next
      case False
      with * obtain xs f ys where "es = xs @ f # ys" "v f = Some True" "\<forall>y \<in> set ys. v y = None \<or> v y = Some True" "v e = None"
        unfolding last_verdict_good_def by blast
      then show ?thesis unfolding last_verdict_good_def by (intro exI [of _ xs] exI [of _ f] exI [of _ "ys @ [e]"]) auto
    qed
  qed
  then show ?thesis by (cases "v e") auto
qed

text \<open>One event: what it does to the fields that the verdicts speak about.\<close>

lemma Next_simps: "Next it = None \<longleftrightarrow> labels it = []" "Next it = Some (v, it') \<Longrightarrow> labels it \<noteq> [] \<and> v = hd (labels it)"
  by (auto simp: Next_def split: list.splits)

lemma HasQNamePart_iff: "HasQNamePart it part \<longleftrightarrow> part \<in> set (labels it)"
proof (induction it part rule: HasQNamePart.induct)
  case (1 it part)
  show ?case
    using 1 by (subst HasQNamePart.simps) (auto simp: Next_def split: list.splits)
qed

lemma operational_labels: "operational lib name \<Longrightarrow> labels name \<noteq> []"
  by (auto simp: operational_def HasQNamePart_iff)

lemma commissionable_labels: "commissionable lib name \<Longrightarrow> labels name \<noteq> []"
  by (auto simp: commissionable_def HasQNamePart_iff)

lemma strncpy_terminated:
  "CHR 0x00 \<in> set (strncpy buf s) \<longleftrightarrow> length (takeWhile (\<lambda>c. c \<noteq> CHR 0x00) s) < length buf"
  by (auto simp: strncpy_def Let_def dest: in_set_takeD set_takeWhileD)

lemma length_strncpy [simp]: "length (strncpy buf s) = length buf"
  by (simp add: strncpy_def Let_def)

text \<open>The part of a message that only the address records of a commissionable node change.\<close>

definition addresses :: "('ip, 'p, 't, 'u) MdnsMessage \<Rightarrow> 'ip list \<times> nat list \<times> nat" where
  "addresses m = (ipAddress (mDiscoveredNodeData m), interfaceId (mDiscoveredNodeData m), numIPs (mDiscoveredNodeData m))"

lemma fold_OnRecord [simp]:
  "ipAddress (fold (OnRecord_discovered lib) rs d) = ipAddress d" "interfaceId (fold (OnRecord_discovered lib) rs d) = interfaceId d"
  "numIPs (fold (OnRecord_discovered lib) rs d) = numIPs d" "instanceName (fold (OnRecord_discovered lib) rs d) = instanceName d"
  by (induction rs arbitrary: d) (simp_all add: OnRecord_discovered_def)

lemma OperationalSrv_frame [simp]:
  "mDiscoveredNodeData (OnOperationalSrvRecord lib name srv m) = mDiscoveredNodeData m"
  "mHasIP (OnOperationalSrvRecord lib name srv m) = mHasIP m"
  "mInterfaceId (OnOperationalSrvRecord lib name srv m) = mInterfaceId m"
  "has_delegate (OnOperationalSrvRecord lib name srv m) = has_delegate m"
  by (simp_all add: OnOperationalSrvRecord_def Let_def split: option.splits prod.splits)

text \<open>The rest of what the theorems follow, and the size of the array of the instance name.\<close>

definition followed :: "('ip, 'p, 't, 'u) MdnsMessage \<Rightarrow> ('ip list \<times> nat list \<times> nat) \<times> bool \<times> bool \<times> bool \<times> nat \<times> nat" where
  "followed m = (addresses m, mHasIP m, mHasNodePort m, has_delegate m, mInterfaceId m, length (instanceName (mDiscoveredNodeData m)))"

lemma CommissionableSrv_frame:
  assumes "labels name \<noteq> []"
  shows "if length (instanceName (mDiscoveredNodeData m)) \<le> length (takeWhile (\<lambda>c. c \<noteq> CHR 0x00) (hd (labels name)))
    then OnCommissionableNodeSrvRecord lib name srv m = Inl OutOfBounds
    else \<exists>m'. OnCommissionableNodeSrvRecord lib name srv m = Inr m' \<and> followed m' = followed m"
proof -
  from assms obtain it where "Next name = Some (hd (labels name), it)" by (cases "labels name") (auto simp: Next_def)
  then show ?thesis
    by (auto simp: OnCommissionableNodeSrvRecord_def Let_def printf_s_def strncpy_terminated followed_def addresses_def split: option.split)
qed

lemma OnResource_frame:
  assumes "\<not> (rtype r = A \<or> rtype r = AAAA)" "\<not> (rtype r = SRV \<and> operational lib (rname r))"
    and "length (instanceName (mDiscoveredNodeData m)) = length (instanceName (fresh_discovered lib))"
  shows "if overlong lib (Resource ty r) then OnResource lib r m = Inl OutOfBounds
    else \<exists>m'. OnResource lib r m = Inr m' \<and> followed m' = followed m"
proof (cases "rtype r = SRV")
  case True
  show ?thesis
  proof (cases "commissionable lib (rname r)")
    case True
    with \<open>rtype r = SRV\<close> assms(2,3) CommissionableSrv_frame [OF commissionable_labels [OF True], of m lib "snd (srv_Parse lib (rdata r))"]
    show ?thesis by (auto simp: OnResource_def overlong_def Let_def split: if_splits)
  qed (use \<open>rtype r = SRV\<close> assms(2) in \<open>simp add: OnResource_def overlong_def Let_def\<close>)
next
  case False
  with assms(1) show ?thesis
    by (cases "rtype r") (simp_all add: OnResource_def overlong_def followed_def addresses_def split: option.split prod.split)
qed

lemma OperationalSrv_port:
  assumes "sdk_ok lib" "labels name \<noteq> []"
  shows "mHasNodePort (OnOperationalSrvRecord lib name srv m) \<longleftrightarrow> fst (ExtractIdFromInstanceName lib (hd (labels name)) p)"
proof -
  have "fst (ExtractIdFromInstanceName lib s q) = fst (ExtractIdFromInstanceName lib s p)" for s q
    using assms(1) unfolding sdk_ok_def by blast
  moreover from assms(2) obtain it where "Next name = Some (hd (labels name), it)" by (cases "labels name") (auto simp: Next_def)
  ultimately show ?thesis
    by (auto simp: OnOperationalSrvRecord_def Let_def split: option.splits prod.splits) (metis fst_conv)+
qed

text \<open>The state of a message after the events \<open>es\<close>.\<close>

definition addresses_ok :: "('pkt, 'd, 'ip, 'p, 't, 'u) mdns_lib \<Rightarrow> nat \<Rightarrow> 'ip list \<Rightarrow> 'ip list \<times> nat list \<times> nat \<Rightarrow> bool" where
  "addresses_ok lib itf as = (\<lambda>(ips, ifs, n).
     length ips = kMaxIPAddresses lib \<and> length ifs = kMaxIPAddresses lib \<and> n = min (kMaxIPAddresses lib) (length as) \<and>
     take n ips = take (kMaxIPAddresses lib) as \<and> take n ifs = replicate n itf)"

definition collected :: "('pkt, 'd, 'ip, 'p, 't, 'u) mdns_lib \<Rightarrow> bool \<Rightarrow> nat \<Rightarrow> 'd event list \<Rightarrow> ('ip, 'p, 't, 'u) MdnsMessage \<Rightarrow> bool" where
  "collected lib dg itf es m \<longleftrightarrow> has_delegate m = dg \<and> mInterfaceId m = itf \<and>
     addresses_ok lib itf (concat (map (discovered lib) es)) (addresses m) \<and>
     mHasIP m = last_verdict_good (ip_verdict lib) es \<and> mHasNodePort m = last_verdict_good (port_verdict lib) es \<and>
     length (instanceName (mDiscoveredNodeData m)) = length (instanceName (fresh_discovered lib))"

lemma collected_new: "sdk_ok lib \<Longrightarrow> collected lib dg itf [] (new_MdnsMessage lib dg itf)"
  by (simp add: collected_def sdk_ok_def new_MdnsMessage_def addresses_def addresses_ok_def last_verdict_Nil)

lemma OnDiscoveredNodeIPAddress_step:
  assumes "addresses_ok lib itf as (addresses m)" "mInterfaceId m = itf"
  shows "\<exists>m'. OnDiscoveredNodeIPAddress lib a m = Inr m' \<and> addresses_ok lib itf (as @ [a]) (addresses m') \<and>
    has_delegate m' = has_delegate m \<and> mInterfaceId m' = itf \<and> mHasIP m' = mHasIP m \<and> mHasNodePort m' = mHasNodePort m \<and>
    instanceName (mDiscoveredNodeData m') = instanceName (mDiscoveredNodeData m)"
proof (cases "numIPs (mDiscoveredNodeData m) \<ge> kMaxIPAddresses lib")
  case True
  with assms show ?thesis by (auto simp: OnDiscoveredNodeIPAddress_def addresses_ok_def addresses_def Let_def min_def split: if_splits)
next
  case False
  with assms show ?thesis
    by (auto simp: OnDiscoveredNodeIPAddress_def addresses_ok_def addresses_def Let_def min_def take_Suc_conv_app_nth
        replicate_append_same split: if_splits)
qed

lemma collected_address_step:
  assumes "collected lib dg itf es m" "parsed_address lib r = Some parsed" "rtype r \<noteq> SRV"
  shows "\<exists>m'. on_address lib (rname r) parsed m = Inr m' \<and> collected lib dg itf (es @ [Resource ty r]) m'"
proof -
  have port: "port_verdict lib (Resource ty r) = None" using assms(3) by (simp add: port_verdict_def)
  consider "parsed = None" | a where "parsed = Some a" "operational lib (rname r) \<or> \<not> commissionable lib (rname r)"
    | a where "parsed = Some a" "\<not> operational lib (rname r)" "commissionable lib (rname r)" by (cases parsed) auto
  then show ?thesis
  proof cases
    case (3 a)
    with assms port OnDiscoveredNodeIPAddress_step [of lib itf "concat (map (discovered lib) es)" m a]
    show ?thesis by (auto simp: on_address_def collected_def last_verdict_snoc ip_verdict_def discovered_def)
  qed (use assms port in \<open>auto simp: on_address_def collected_def last_verdict_snoc ip_verdict_def discovered_def
      OnOperationalIPAddress_def addresses_def\<close>)
qed

lemma collected_step:
  assumes "sdk_ok lib" "collected lib dg itf es m"
  shows "if overlong lib e then on_event lib e m = Inl OutOfBounds
    else \<exists>m'. on_event lib e m = Inr m' \<and> collected lib dg itf (es @ [e]) m'"
proof (cases e)
  case (Resource ty r)
  consider "rtype r = SRV" "operational lib (rname r)" | "rtype r = A \<or> rtype r = AAAA"
    | "\<not> (rtype r = A \<or> rtype r = AAAA)" "\<not> (rtype r = SRV \<and> operational lib (rname r))" by auto
  then show ?thesis
  proof cases
    case 1
    with Resource assms OperationalSrv_port [OF assms(1) operational_labels [of lib "rname r"]] show ?thesis
      by (simp add: on_event_def OnResource_def overlong_def collected_def last_verdict_snoc ip_verdict_def port_verdict_def
          discovered_def parsed_address_def addresses_def Let_def)
  next
    case 2
    with Resource collected_address_step [OF assms(2), of r _ ty] show ?thesis
      by (auto simp: parsed_address_def on_event_def OnResource_def overlong_def)
  next
    case 3
    have "parsed_address lib r = None" using 3 by (cases "rtype r") (simp_all add: parsed_address_def)
    with Resource 3 assms(2) OnResource_frame [OF 3, of m ty] show ?thesis
      by (auto simp: on_event_def collected_def followed_def last_verdict_snoc ip_verdict_def port_verdict_def discovered_def)
  qed
qed (use assms(2) in \<open>simp_all add: on_event_def OnHeader_def OnQuery_def overlong_def collected_def last_verdict_snoc ip_verdict_def port_verdict_def discovered_def\<close>)

lemma collected_run:
  assumes "sdk_ok lib" "collected lib dg itf es m"
  shows "if \<exists>e \<in> set evs. overlong lib e then foldE (on_event lib) evs m = Inl OutOfBounds
    else \<exists>m'. foldE (on_event lib) evs m = Inr m' \<and> collected lib dg itf (es @ evs) m'"
  using assms(2)
proof (induction evs arbitrary: es m)
  case Nil
  then show ?case by simp
next
  case (Cons e evs)
  show ?case
  proof (cases "overlong lib e")
    case True
    with collected_step [OF assms(1) Cons.prems, of e] show ?thesis by simp
  next
    case False
    then obtain m1 where "on_event lib e m = Inr m1" "collected lib dg itf (es @ [e]) m1"
      using collected_step [OF assms(1) Cons.prems, of e] by auto
    with Cons.IH [of "es @ [e]" m1] False show ?thesis by (auto split: if_splits)
  qed
qed

text \<open>
  C14. Collecting a packet, whatever records it holds: no record makes the message write outside its address
  arrays. If a service record of a commissionable node has a first label as long as the array of the instance
  name or longer, printing that array reads past its end. Otherwise the arrays hold afterwards exactly the first
  \<^verbatim>\<open>kMaxIPAddresses\<close> addresses of the packet's commissionable nodes, in order, each with the interface
  the packet came from.
\<close>

theorem mdns_collects:
  assumes "sdk_ok lib"
  shows "if \<exists>e \<in> set evs. overlong lib e then foldE (on_event lib) evs (new_MdnsMessage lib dg itf) = Inl OutOfBounds
    else \<exists>m. foldE (on_event lib) evs (new_MdnsMessage lib dg itf) = Inr m \<and>
      (let d = mDiscoveredNodeData m; as = concat (map (discovered lib) evs) in
        length (ipAddress d) = kMaxIPAddresses lib \<and> numIPs d = min (kMaxIPAddresses lib) (length as) \<and>
        take (numIPs d) (ipAddress d) = take (kMaxIPAddresses lib) as \<and> take (numIPs d) (interfaceId d) = replicate (numIPs d) itf)"
  using collected_run [OF assms collected_new [OF assms, of dg itf], of evs]
  by (auto simp: collected_def addresses_ok_def addresses_def Let_def)

text \<open>
  The report on a packet: nothing when the parser rejects it; otherwise a discovered node if the SDK
  finds it valid; otherwise a resolved node exactly when the packet's last word on the address and
  its last word on the port of an operational node were both good (a record that cannot be parsed is
  a bad word for the address, whatever node it is about); otherwise nothing. There is at most one
  report, and with no delegate set the report is a call through a null pointer.
\<close>

theorem mdns_report:
  assumes "sdk_ok lib" "ParsePacket lib pkt = (evs, ok)" "\<nexists>e. e \<in> set evs \<and> overlong lib e"
  shows "\<exists>m. foldE (on_event lib) evs (new_MdnsMessage lib (mDelegate p) itf) = Inr m \<and>
    OnMdnsPacketData lib pkt (Some itf) p =
      (if \<not> ok then Inr []
       else if IsValid lib (mDiscoveredNodeData m) then
         (if mDelegate p then Inr [NodeDiscoveryComplete (mDiscoveredNodeData m)] else Inl NullDeref)
       else if last_verdict_good (ip_verdict lib) evs \<and> last_verdict_good (port_verdict lib) evs then
         (if mDelegate p then Inr [NodeIdResolved (mNodeData m)] else Inl NullDeref)
       else Inr [])"
proof -
  obtain m where "foldE (on_event lib) evs (new_MdnsMessage lib (mDelegate p) itf) = Inr m" "collected lib (mDelegate p) itf evs m"
    using collected_run [OF assms(1) collected_new [OF assms(1)], of evs "mDelegate p" itf] assms(3) by (auto split: if_splits)
  with assms(2) show ?thesis by (auto simp: OnMdnsPacketData_def OnComplete_def collected_def)
qed

section \<open>Buffers and set-up\<close>

lemma length_decimal: "n < 10 ^ k \<Longrightarrow> 0 < k \<Longrightarrow> length (decimal n) \<le> k"
proof (induction n arbitrary: k rule: decimal.induct)
  case (1 n)
  show ?case
  proof (cases "n < 10")
    case True
    with 1 show ?thesis by (simp add: decimal.simps)
  next
    case False
    with 1 obtain j where "k = Suc j" "0 < j" by (cases k; cases "k - 1") auto
    with 1(1) [of j] 1(2) False show ?thesis by (subst decimal.simps) (simp add: less_mult_imp_div_less mult.commute)
  qed
qed

text \<open>Every name of a record type, class or section with a code that is an \<^verbatim>\<open>int\<close> fits its buffer of 32 bytes.\<close>

lemma unknown_fits: "- (2 ^ 31) \<le> i \<Longrightarrow> i < 2 ^ 31 \<Longrightarrow> length (unknown i) < 32"
  using length_decimal [of "nat (- i)" 10] length_decimal [of "nat i" 10]
  by (auto simp: unknown_def percent_d_def nat_less_iff)

text \<open>Setting up succeeds whatever starting the server returns, and leaves the parser with its delegate.\<close>

lemma mdns_init_exact:
  "mdns_init start \<lparr>gpMdnsParser = None, server_calls = []\<rparr> =
     Inr (0, \<lparr>gpMdnsParser = Some \<lparr>mDelegate = True\<rparr>, server_calls = [SetQueryDelegate, SetResponseDelegate, Shutdown, StartServer 5353]\<rparr>)"
  by (simp add: mdns_init_def create_def new_MdnsParser_def Start_def SetResolverDelegate_def Instance_def kMdnsPort_def)

section \<open>Examples\<close>

text \<open>Two addresses at most; payloads are numbers, addresses too, and 0 does not parse.\<close>

definition sdk_example :: "(nat event list, nat, nat, nat, unit, unit) mdns_lib" where
  "sdk_example = \<lparr>ParsePacket = \<lambda>evs. (evs, True), srv_Parse = \<lambda>d. (True, \<lparr>srv_name = \<lparr>labels = [''host''], ends_valid = True\<rparr>, srv_port = of_nat d\<rparr>),
     ParsePtrRecord = \<lambda>_. \<lparr>labels = [], ends_valid = True\<rparr>, ParseTxtRecord = \<lambda>_. [],
     ParseARecord = \<lambda>d. if d = 0 then None else Some d, ParseAAAARecord = \<lambda>d. if d = 0 then None else Some d,
     ExtractIdFromInstanceName = \<lambda>s p. (s \<noteq> [], length s), FillDiscoveredFromTxt = \<lambda>_ _ t. t, FillNodeFromTxt = \<lambda>_ _ t. t,
     IsValid = \<lambda>d. numIPs d > 0,
     fresh_discovered = \<lparr>hostName = [], instanceName = replicate 17 (CHR 0x00), port = 0, ipAddress = [0, 0], interfaceId = [0, 0], numIPs = 0, txt_fields = ()\<rparr>,
     fresh_node = \<lparr>mHostName = [], mPeerId = 0, mPort = 0, mAddress = 0, node_interface = 0, node_txt_fields = ()\<rparr>,
     kMaxIPAddresses = 2, CopyString = take 16, kOperationalServiceName = ''_matter'', kCommissionableServiceName = ''_matterc'',
     kCommissionerServiceName = ''_matterd''\<rparr>"

lemma sdk_example_ok: "sdk_ok sdk_example"
  by (simp add: sdk_ok_def sdk_example_def)

definition record_example :: "QType \<Rightarrow> string \<Rightarrow> nat \<Rightarrow> nat event" where
  "record_example ty service d = Resource kAnswer \<lparr>rtype = ty, rname = \<lparr>labels = [''B1'', service], ends_valid = True\<rparr>, rdata = d\<rparr>"

lemma example_names: "operational sdk_example \<lparr>labels = [''B1'', ''_matter''], ends_valid = True\<rparr>"
    "\<not> operational sdk_example \<lparr>labels = [''B1'', ''_matterc''], ends_valid = True\<rparr>"
    "commissionable sdk_example \<lparr>labels = [''B1'', ''_matterc''], ends_valid = True\<rparr>"
  by (simp_all add: operational_def commissionable_def HasQNamePart_iff sdk_example_def)

lemma example_records:
  "d \<noteq> 0 \<Longrightarrow> ty \<in> {A, AAAA} \<Longrightarrow> discovered sdk_example (record_example ty ''_matterc'' d) = [d]"
  "discovered sdk_example (record_example ty ''_matter'' d) = []"
  "d \<noteq> 0 \<Longrightarrow> ip_verdict sdk_example (record_example A ''_matter'' d) = Some True"
  "port_verdict sdk_example (record_example SRV ''_matter'' d) = Some True"
  "port_verdict sdk_example (record_example A ''_matter'' d) = None"
  by (auto simp: discovered_def ip_verdict_def port_verdict_def record_example_def example_names parsed_address_def)
    (simp_all add: sdk_example_def)

lemma example_lengths: "length (instanceName (fresh_discovered sdk_example)) = 17" "kMaxIPAddresses sdk_example = 2"
  by (simp_all add: sdk_example_def)

lemma example_short: "\<not> overlong sdk_example (record_example ty service d)"
  by (simp add: overlong_def record_example_def example_lengths)

definition overlong_example :: "nat event" where
  "overlong_example = Resource kAnswer \<lparr>rtype = SRV, rname = \<lparr>labels = [''0123456789ABCDEF0'', ''_matterc''], ends_valid = True\<rparr>, rdata = 5540\<rparr>"

lemma example_overlong: "overlong sdk_example overlong_example"
  by (simp add: overlong_def overlong_example_def example_lengths) (simp add: operational_def commissionable_def HasQNamePart_iff sdk_example_def)

theorem mdns_collects_witness:
  "(\<exists>m. foldE (on_event sdk_example) [record_example A ''_matterc'' 4, record_example AAAA ''_matterc'' 5, record_example A ''_matterc'' 6]
      (new_MdnsMessage sdk_example True 3) = Inr m \<and>
    numIPs (mDiscoveredNodeData m) = 2 \<and> take 2 (ipAddress (mDiscoveredNodeData m)) = [4, 5] \<and> take 2 (interfaceId (mDiscoveredNodeData m)) = [3, 3]) \<and>
   foldE (on_event sdk_example) [overlong_example] (new_MdnsMessage sdk_example True 3) = Inl OutOfBounds"
proof
  let ?evs = "[record_example A ''_matterc'' 4, record_example AAAA ''_matterc'' 5, record_example A ''_matterc'' 6]"
  have "\<nexists>e. e \<in> set ?evs \<and> overlong sdk_example e" using example_short by auto
  moreover note mdns_collects [OF sdk_example_ok, of ?evs True 3]
  moreover have "concat (map (discovered sdk_example) ?evs) = [4, 5, 6]" by (simp add: example_records)
  ultimately show "\<exists>m. foldE (on_event sdk_example) ?evs (new_MdnsMessage sdk_example True 3) = Inr m \<and>
    numIPs (mDiscoveredNodeData m) = 2 \<and> take 2 (ipAddress (mDiscoveredNodeData m)) = [4, 5] \<and> take 2 (interfaceId (mDiscoveredNodeData m)) = [3, 3]"
    by (simp only: Let_def if_False bex_simps example_lengths Bex_def) (auto simp: numeral_2_eq_2)
  show "foldE (on_event sdk_example) [overlong_example] (new_MdnsMessage sdk_example True 3) = Inl OutOfBounds"
    using mdns_collects [OF sdk_example_ok, of "[overlong_example]" True 3] example_overlong by simp
qed

theorem mdns_report_witness:
  "\<exists>n. OnMdnsPacketData sdk_example [record_example SRV ''_matter'' 5540, record_example A ''_matter'' 7] (Some 3) \<lparr>mDelegate = True\<rparr> =
    Inr [NodeIdResolved n]"
proof -
  let ?evs = "[record_example SRV ''_matter'' 5540, record_example A ''_matter'' 7]"
  have good: "last_verdict_good (ip_verdict sdk_example) ?evs" "last_verdict_good (port_verdict sdk_example) ?evs"
    using last_verdict_snoc [of _ "[record_example SRV ''_matter'' 5540]" "record_example A ''_matter'' 7"]
      last_verdict_snoc [of _ "[]" "record_example SRV ''_matter'' 5540"] by (simp_all add: example_records)
  have short: "\<nexists>e. e \<in> set ?evs \<and> overlong sdk_example e" using example_short by auto
  have pkt: "ParsePacket sdk_example ?evs = (?evs, True)" by (simp add: sdk_example_def)
  obtain m where m: "foldE (on_event sdk_example) ?evs (new_MdnsMessage sdk_example True 3) = Inr m" "collected sdk_example True 3 ?evs m"
    using collected_run [OF sdk_example_ok collected_new [OF sdk_example_ok], of ?evs True 3] short by (auto simp del: foldE.simps split: if_splits)
  have "\<not> IsValid sdk_example (mDiscoveredNodeData m)"
    using m(2) by (simp add: collected_def addresses_ok_def addresses_def example_records) (simp add: sdk_example_def)
  with mdns_report [OF sdk_example_ok pkt short, of "\<lparr>mDelegate = True\<rparr>" 3] good m(1) show ?thesis by auto
qed

end
