(* ===== verification/Mdns_Resolver.thy ===== *)
theory Mdns_Resolver
  imports Mdns
begin

text \<open>
  \<^verbatim>\<open>MDNSResolve\<close> of \<^verbatim>\<open>tuya_mdns_discovery.cpp\<close>, the delegate of the receiver, and the receiver at work: the set-up
  followed by any number of packets. What the delegate logs is a list of lines; the accessors of the
  SDK that it calls are arguments. What the SDK's own \<^verbatim>\<open>LogDetail\<close> and \<^verbatim>\<open>LogNodeIdResolved\<close> print is not modelled.
\<close>

section \<open>The delegate\<close>

record ('ip, 'p, 'u) resolver_lib =
  addr_ToString :: "'ip \<Rightarrow> string"
  GetNodeId :: "'p \<Rightarrow> u64"
  GetMrpRetryIntervalIdle :: "'u \<Rightarrow> u32 option"
  GetMrpRetryIntervalActive :: "'u \<Rightarrow> u32 option"
  mSupportsTcp :: "'u \<Rightarrow> bool"

datatype log_line =
    NodeId_Resolution u64 string u16
  | Hostname string
  | MRP_idle u32
  | MRP_active u32
  | Supports_TCP string
  | Discovery_trace

definition OnNodeIdResolved :: "('ip, 'p, 'u) resolver_lib \<Rightarrow> ('ip, 'p, 'u) ResolvedNodeData \<Rightarrow> log_line list" where
  "OnNodeIdResolved rl nodeData =
     [NodeId_Resolution (GetNodeId rl (mPeerId nodeData)) (addr_ToString rl (mAddress nodeData)) (mPort nodeData),
      Hostname (mHostName nodeData)] @
     (case GetMrpRetryIntervalIdle rl (node_txt_fields nodeData) of None \<Rightarrow> [] | Some ms \<Rightarrow> [MRP_idle ms]) @
     (case GetMrpRetryIntervalActive rl (node_txt_fields nodeData) of None \<Rightarrow> [] | Some ms \<Rightarrow> [MRP_active ms]) @
     [Supports_TCP (if mSupportsTcp rl (node_txt_fields nodeData) then ''yes'' else ''no'')]"

definition OnNodeDiscoveryComplete :: "('ip, 't) DiscoveredNodeData \<Rightarrow> log_line list" where
  "OnNodeDiscoveryComplete nodeData = [Discovery_trace]"

text \<open>The virtual calls of \<^verbatim>\<open>ResolverDelegate\<close>.\<close>

definition deliver :: "('ip, 'p, 'u) resolver_lib \<Rightarrow> ('ip, 'p, 't, 'u) report \<Rightarrow> log_line list" where
  "deliver rl r = (case r of NodeDiscoveryComplete d \<Rightarrow> OnNodeDiscoveryComplete d | NodeIdResolved n \<Rightarrow> OnNodeIdResolved rl n)"

definition on_packet :: "('pkt, 'd, 'ip, 'p, 't, 'u) mdns_lib \<Rightarrow> ('ip, 'p, 'u) resolver_lib \<Rightarrow> MdnsParser \<Rightarrow> 'pkt \<times> nat option \<Rightarrow> log_line list \<Rightarrow> log_line list result" where
  "on_packet lib rl p pkt log = bindE (OnMdnsPacketData lib (fst pkt) (snd pkt) p) (\<lambda>rs. Inr (log @ concat (map (deliver rl) rs)))"

definition mdns_session :: "('pkt, 'd, 'ip, 'p, 't, 'u) mdns_lib \<Rightarrow> ('ip, 'p, 'u) resolver_lib \<Rightarrow> (nat \<Rightarrow> int) \<Rightarrow> ('pkt \<times> nat option) list \<Rightarrow> log_line list result" where
  "mdns_session lib rl start pkts =
     bindE (mdns_init start \<lparr>gpMdnsParser = None, server_calls = []\<rparr>) (\<lambda>(_, g).
     case Instance g of None \<Rightarrow> Inl NullDeref | Some p \<Rightarrow> foldE (on_packet lib rl p) pkts [])"

section \<open>Address and port of an operational node\<close>

definition node_address :: "('pkt, 'd, 'ip, 'p, 't, 'u) mdns_lib \<Rightarrow> 'd event \<Rightarrow> 'ip option" where
  "node_address lib e = (case e of
     Resource _ r \<Rightarrow> if operational lib (rname r) then (case parsed_address lib r of Some a \<Rightarrow> a | None \<Rightarrow> None) else None
   | _ \<Rightarrow> None)"

definition node_port :: "('pkt, 'd, 'ip, 'p, 't, 'u) mdns_lib \<Rightarrow> 'd event \<Rightarrow> u16 option" where
  "node_port lib e = (case e of
     Resource _ r \<Rightarrow> if port_verdict lib e = Some True then Some (srv_port (snd (srv_Parse lib (rdata r)))) else None
   | _ \<Rightarrow> None)"

definition latest :: "('e \<Rightarrow> 'v option) \<Rightarrow> 'v \<Rightarrow> 'e list \<Rightarrow> 'v" where
  "latest f d es = fold (\<lambda>e v. case f e of None \<Rightarrow> v | Some w \<Rightarrow> w) es d"

lemma latest_simps [simp]: "latest f d [] = d" "latest f d (es @ [e]) = (case f e of None \<Rightarrow> latest f d es | Some w \<Rightarrow> w)"
  by (simp_all add: latest_def split: option.split)

definition placed :: "('pkt, 'd, 'ip, 'p, 't, 'u) mdns_lib \<Rightarrow> 'd event list \<Rightarrow> ('ip, 'p, 't, 'u) MdnsMessage \<Rightarrow> bool" where
  "placed lib es m \<longleftrightarrow> mAddress (mNodeData m) = latest (node_address lib) (mAddress (fresh_node lib)) es \<and>
     mPort (mNodeData m) = latest (node_port lib) (mPort (fresh_node lib)) es"

lemma fold_OnRecord_node [simp]:
  "mAddress (fold (OnRecord_node lib) rs n) = mAddress n" "mPort (fold (OnRecord_node lib) rs n) = mPort n"
  by (induction rs arbitrary: n) (simp_all add: OnRecord_node_def)

lemma CommissionableSrv_node: "OnCommissionableNodeSrvRecord lib name srv m = Inr m' \<Longrightarrow> mNodeData m' = mNodeData m"
  by (auto simp: OnCommissionableNodeSrvRecord_def Let_def bindE_eq_Inr)

lemma OperationalSrv_node:
  assumes "sdk_ok lib" "labels name \<noteq> []"
  shows "mAddress (mNodeData (OnOperationalSrvRecord lib name srv m)) = mAddress (mNodeData m)"
    and "mPort (mNodeData (OnOperationalSrvRecord lib name srv m)) =
      (if fst (ExtractIdFromInstanceName lib (hd (labels name)) p) then srv_port srv else mPort (mNodeData m))"
proof -
  show "mAddress (mNodeData (OnOperationalSrvRecord lib name srv m)) = mAddress (mNodeData m)"
    by (simp add: OnOperationalSrvRecord_def Let_def split: option.split prod.split)
  have "fst (ExtractIdFromInstanceName lib s q) = fst (ExtractIdFromInstanceName lib s p)" for s q
    using assms(1) unfolding sdk_ok_def by blast
  moreover from assms(2) obtain it where "Next name = Some (hd (labels name), it)" by (cases "labels name") (auto simp: Next_def)
  ultimately show "mPort (mNodeData (OnOperationalSrvRecord lib name srv m)) =
      (if fst (ExtractIdFromInstanceName lib (hd (labels name)) p) then srv_port srv else mPort (mNodeData m))"
    by (auto simp: OnOperationalSrvRecord_def Let_def split: option.split prod.split) (metis fst_conv)+
qed

lemma placed_new: "placed lib [] (new_MdnsMessage lib dg itf)"
  by (simp add: placed_def new_MdnsMessage_def)

lemma placed_address_step:
  assumes "placed lib es m" "parsed_address lib r = Some parsed" "rtype r \<noteq> SRV" "on_address lib (rname r) parsed m = Inr m'"
  shows "placed lib (es @ [Resource ty r]) m'"
  using assms
  by (auto simp: on_address_def placed_def node_address_def node_port_def port_verdict_def OnOperationalIPAddress_def
      OnDiscoveredNodeIPAddress_def Let_def split: option.splits if_splits)

lemma placed_other_step:
  assumes "placed lib es m" "\<not> (rtype r = A \<or> rtype r = AAAA)" "\<not> (rtype r = SRV \<and> operational lib (rname r))" "OnResource lib r m = Inr m'"
  shows "placed lib (es @ [Resource ty r]) m'"
proof -
  have "mAddress (mNodeData m') = mAddress (mNodeData m)" "mPort (mNodeData m') = mPort (mNodeData m)"
    using assms(2-4) by (cases "rtype r"; auto simp: OnResource_def Let_def dest: CommissionableSrv_node split: option.splits if_splits)+
  moreover have "parsed_address lib r = None" using assms(2) by (cases "rtype r") (simp_all add: parsed_address_def)
  moreover have "port_verdict lib (Resource ty r) = None" using assms(3) by (simp add: port_verdict_def)
  ultimately show ?thesis using assms(1) by (simp add: placed_def node_address_def node_port_def)
qed

lemma placed_step:
  assumes "sdk_ok lib" "placed lib es m" "on_event lib e m = Inr m'"
  shows "placed lib (es @ [e]) m'"
proof (cases e)
  case (Resource ty r)
  consider "rtype r = SRV" "operational lib (rname r)" | "rtype r = A \<or> rtype r = AAAA"
    | "\<not> (rtype r = A \<or> rtype r = AAAA)" "\<not> (rtype r = SRV \<and> operational lib (rname r))" by auto
  then show ?thesis
  proof cases
    case 1
    then have "labels (rname r) \<noteq> []" by (intro operational_labels)
    note node = OperationalSrv_node(1) [OF assms(1) this] OperationalSrv_node(2) [OF assms(1) this, where p = "mPeerId (fresh_node lib)"]
    from 1 Resource assms node show ?thesis
      by (auto simp: on_event_def OnResource_def placed_def node_address_def node_port_def port_verdict_def parsed_address_def Let_def)
  next
    case 2
    with Resource assms(3) placed_address_step [OF assms(2), of r _ m' ty] show ?thesis
      by (auto simp: parsed_address_def on_event_def OnResource_def)
  next
    case 3
    with Resource assms(2,3) show ?thesis by (auto simp: on_event_def intro: placed_other_step)
  qed
qed (use assms in \<open>simp_all add: on_event_def OnHeader_def OnQuery_def placed_def node_address_def node_port_def\<close>)

lemma placed_run:
  assumes "sdk_ok lib" "placed lib es m" "foldE (on_event lib) evs m = Inr m'"
  shows "placed lib (es @ evs) m'"
  using assms(2,3)
proof (induction evs arbitrary: es m)
  case Nil
  then show ?case by simp
next
  case (Cons e evs)
  then obtain m1 where "on_event lib e m = Inr m1" "foldE (on_event lib) evs m1 = Inr m'" by (auto simp: bindE_eq_Inr)
  with Cons placed_step [OF assms(1)] show ?case by fastforce
qed

section \<open>The receiver at work\<close>

text \<open>What a packet goes wrong with, if it does: it comes without its interface, or with a name that is printed past its end.\<close>

definition packet_fault :: "('pkt, 'd, 'ip, 'p, 't, 'u) mdns_lib \<Rightarrow> 'pkt \<times> nat option \<Rightarrow> fault option" where
  "packet_fault lib pkt = (case snd pkt of
     None \<Rightarrow> Some NullDeref
   | Some _ \<Rightarrow> if \<exists>e \<in> set (fst (ParsePacket lib (fst pkt))). overlong lib e then Some OutOfBounds else None)"

text \<open>What one packet may add to the log.\<close>

definition packet_logged :: "('pkt, 'd, 'ip, 'p, 't, 'u) mdns_lib \<Rightarrow> ('ip, 'p, 'u) resolver_lib \<Rightarrow> 'pkt \<times> nat option \<Rightarrow> log_line list \<Rightarrow> bool" where
  "packet_logged lib rl pkt lines \<longleftrightarrow> (\<forall>evs ok itf. ParsePacket lib (fst pkt) = (evs, ok) \<longrightarrow> snd pkt = Some itf \<longrightarrow>
     (if \<not> ok then lines = []
      else \<exists>m. foldE (on_event lib) evs (new_MdnsMessage lib True itf) = Inr m \<and>
        (if IsValid lib (mDiscoveredNodeData m) then lines = [Discovery_trace]
         else if last_verdict_good (ip_verdict lib) evs \<and> last_verdict_good (port_verdict lib) evs then
           \<exists>rest. lines = NodeId_Resolution (GetNodeId rl (mPeerId (mNodeData m)))
               (addr_ToString rl (latest (node_address lib) (mAddress (fresh_node lib)) evs))
               (latest (node_port lib) (mPort (fresh_node lib)) evs) # Hostname (mHostName (mNodeData m)) # rest
         else lines = [])))"

lemma on_packet_fault: "sdk_ok lib \<Longrightarrow> packet_fault lib pkt = Some f \<Longrightarrow> on_packet lib rl p pkt log = Inl f"
  using collected_run [OF _ collected_new, of lib "fst (ParsePacket lib (fst pkt))" "mDelegate p" "the (snd pkt)"]
  by (auto simp: packet_fault_def on_packet_def OnMdnsPacketData_def split: option.splits if_splits prod.split)

lemma on_packet_logged:
  assumes "sdk_ok lib" "packet_fault lib pkt = None"
  shows "\<exists>lines. on_packet lib rl \<lparr>mDelegate = True\<rparr> pkt log = Inr (log @ lines) \<and> packet_logged lib rl pkt lines"
proof -
  obtain evs ok where pkt: "ParsePacket lib (fst pkt) = (evs, ok)" by fastforce
  with assms(2) obtain itf where itf: "snd pkt = Some itf" "\<nexists>e. e \<in> set evs \<and> overlong lib e"
    by (auto simp: packet_fault_def split: option.splits if_splits)
  let ?m = "new_MdnsMessage lib True itf"
  obtain m where run: "foldE (on_event lib) evs ?m = Inr m" and m: "collected lib True itf evs m"
    using collected_run [OF assms(1) collected_new [OF assms(1)], of evs True itf] itf(2) by (auto split: if_splits)
  have "placed lib evs m" using placed_run [OF assms(1) placed_new run] by simp
  then show ?thesis
    using m itf(1) by (auto simp: on_packet_def OnMdnsPacketData_def pkt run OnComplete_def collected_def packet_logged_def deliver_def
        OnNodeIdResolved_def OnNodeDiscoveryComplete_def placed_def)
qed

lemma on_packets_logged:
  assumes "sdk_ok lib"
  shows "case List.map_filter (packet_fault lib) pkts of
      f # _ \<Rightarrow> foldE (on_packet lib rl \<lparr>mDelegate = True\<rparr>) pkts log = Inl f
    | [] \<Rightarrow> \<exists>logs. foldE (on_packet lib rl \<lparr>mDelegate = True\<rparr>) pkts log = Inr (log @ concat logs) \<and> list_all2 (packet_logged lib rl) pkts logs"
proof (induction pkts arbitrary: log)
  case Nil
  then show ?case by (simp add: map_filter_simps)
next
  case (Cons pkt pkts)
  show ?case
  proof (cases "packet_fault lib pkt")
    case (Some f)
    with on_packet_fault [OF assms Some] show ?thesis by (simp add: map_filter_simps)
  next
    case None
    then obtain lines where lines: "on_packet lib rl \<lparr>mDelegate = True\<rparr> pkt log = Inr (log @ lines)" "packet_logged lib rl pkt lines"
      using on_packet_logged [OF assms] by blast
    show ?thesis
    proof (cases "List.map_filter (packet_fault lib) pkts")
      case Nil
      with Cons.IH [of "log @ lines"] obtain logs where "foldE (on_packet lib rl \<lparr>mDelegate = True\<rparr>) pkts (log @ lines) = Inr ((log @ lines) @ concat logs)"
        "list_all2 (packet_logged lib rl) pkts logs" by auto
      with lines None Nil show ?thesis by (simp add: map_filter_simps) (intro exI [of _ "lines # logs"], simp)
    next
      case later: (Cons f fs)
      with Cons.IH [of "log @ lines"] lines None show ?thesis by (simp add: map_filter_simps)
    qed
  qed
qed

text \<open>
  C13. The receiver at work, after the set-up, whatever the start of the server returned. Packets are
  handled in order, each on its own. The first one that comes without the pointer to its interface, or that has a service
  record of a commissionable node whose first label fills the array of the instance name, ends the run:
  through the null pointer, or by printing past the end of the array. If there is none, no packet faults: a packet
  that the parser rejects logs nothing; a valid
  discovered node leaves a trace; otherwise a resolved node is logged, with the last address and the
  last port that the packet gives for an operational node, exactly when its last words on both are
  good; otherwise nothing is logged.
\<close>

theorem mdns_session_log:
  assumes "sdk_ok lib"
  shows "case List.map_filter (packet_fault lib) pkts of
      f # _ \<Rightarrow> mdns_session lib rl start pkts = Inl f
    | [] \<Rightarrow> \<exists>logs. mdns_session lib rl start pkts = Inr (concat logs) \<and> list_all2 (packet_logged lib rl) pkts logs"
  using on_packets_logged [OF assms, of rl pkts "[]"] by (simp add: mdns_session_def mdns_init_exact Instance_def split: list.splits)

section \<open>Example\<close>

definition resolver_example :: "(nat, nat, unit) resolver_lib" where
  "resolver_example = \<lparr>addr_ToString = \<lambda>a. decimal a, GetNodeId = of_nat, GetMrpRetryIntervalIdle = \<lambda>_. None,
     GetMrpRetryIntervalActive = \<lambda>_. Some 300, mSupportsTcp = \<lambda>_. False\<rparr>"

lemma example_fault:
  "packet_fault sdk_example ([record_example SRV ''_matter'' 5540, record_example A ''_matter'' 7], Some 3) = None"
  "packet_fault sdk_example ([overlong_example], Some 3) = Some OutOfBounds"
  using example_short example_overlong by (simp_all add: packet_fault_def) (simp_all add: sdk_example_def)

theorem mdns_session_log_witness:
  "(\<exists>id rest. mdns_session sdk_example resolver_example (\<lambda>_. - 1) [([record_example SRV ''_matter'' 5540, record_example A ''_matter'' 7], Some 3)] =
      Inr (NodeId_Resolution id ''7'' 5540 # rest)) \<and>
   mdns_session sdk_example resolver_example (\<lambda>_. - 1)
     [([record_example SRV ''_matter'' 5540, record_example A ''_matter'' 7], Some 3), ([overlong_example], Some 3)] = Inl OutOfBounds"
proof
  let ?evs = "[record_example SRV ''_matter'' 5540, record_example A ''_matter'' 7]"
  have good: "last_verdict_good (ip_verdict sdk_example) ?evs" "last_verdict_good (port_verdict sdk_example) ?evs"
    using last_verdict_snoc [of _ "[record_example SRV ''_matter'' 5540]" "record_example A ''_matter'' 7"]
      last_verdict_snoc [of _ "[]" "record_example SRV ''_matter'' 5540"] by (simp_all add: example_records)
  have pkt: "ParsePacket sdk_example ?evs = (?evs, True)" by (simp add: sdk_example_def)
  have short: "\<nexists>e. e \<in> set ?evs \<and> overlong sdk_example e" using example_short by auto
  obtain m where m: "foldE (on_event sdk_example) ?evs (new_MdnsMessage sdk_example True 3) = Inr m" "collected sdk_example True 3 ?evs m"
    using collected_run [OF sdk_example_ok collected_new [OF sdk_example_ok], of ?evs True 3] short by (auto simp del: foldE.simps split: if_splits)
  have v: "\<not> IsValid sdk_example (mDiscoveredNodeData m)"
    using m(2) by (simp add: collected_def addresses_ok_def addresses_def example_records) (simp add: sdk_example_def)
  have l: "latest (node_address sdk_example) a ?evs = 7" "latest (node_port sdk_example) p ?evs = 5540" for a p
    by (simp_all add: latest_def node_address_def node_port_def port_verdict_def record_example_def example_names parsed_address_def)
      (simp_all add: sdk_example_def)
  obtain lines where s: "mdns_session sdk_example resolver_example (\<lambda>_. - 1) [(?evs, Some 3)] = Inr lines"
    and p: "packet_logged sdk_example resolver_example (?evs, Some 3) lines"
    using mdns_session_log [OF sdk_example_ok, of resolver_example "\<lambda>_. - 1" "[(?evs, Some 3)]"]
    by (auto simp: list_all2_Cons1 map_filter_simps example_fault)
  have "addr_ToString resolver_example 7 = ''7''" by (simp add: resolver_example_def decimal.simps char_of_def bit_0)
  with p good pkt m(1) v l s show "\<exists>id rest. mdns_session sdk_example resolver_example (\<lambda>_. - 1) [(?evs, Some 3)] =
      Inr (NodeId_Resolution id ''7'' 5540 # rest)" unfolding packet_logged_def by (auto simp del: foldE.simps)
  show "mdns_session sdk_example resolver_example (\<lambda>_. - 1) [(?evs, Some 3), ([overlong_example], Some 3)] = Inl OutOfBounds"
    using mdns_session_log [OF sdk_example_ok, of resolver_example "\<lambda>_. - 1" "[(?evs, Some 3), ([overlong_example], Some 3)]"]
    by (simp add: map_filter_simps example_fault)
qed

end
