(* ===== verification/Dbus.thy ===== *)
theory Dbus
  imports Prelude
begin

text \<open>
  The D-Bus client of \<^verbatim>\<open>dbus_example/otbr_object.cpp\<close>, which reads properties of a Thread border
  router. The D-Bus library is an argument: the type at an iterator, stepping and recursing, and the
  bytes of a basic value. Its documented preconditions are part of the calls: recursing is for
  containers, reading a basic value for basic types. The iterators that the program allocates live
  on an explicit heap; allocation succeeds. Printing is left out, except where it reads through a
  pointer. The assertions of the request are on; \<open>request_made\<close>, \<open>appended\<close>, \<open>sent_off\<close>, \<open>pending\<close> and \<open>reply_iter\<close> are what the
  asserted calls return.

  The two functions that read a value into the caller's buffer are declared to return one and do not. That is
  undefined; \<open>flows_off\<close> says whether such a function comes back to its caller, which does not read the value.
\<close>

section \<open>Library and state\<close>

record 'i dbus_lib =
  arg_type :: "'i \<Rightarrow> char"
  sub_iter :: "'i \<Rightarrow> 'i"
  next_iter :: "'i \<Rightarrow> 'i option"
  basic_bytes :: "'i \<Rightarrow> u8 list"
  request_made :: bool
  appended :: "string \<Rightarrow> bool"
  sent_off :: bool
  pending :: bool
  reply_iter :: "string \<Rightarrow> string \<Rightarrow> 'i option"
  flows_off :: bool

definition DBUS_TYPE_INVALID :: char where
  "DBUS_TYPE_INVALID = CHR 0x00"

definition is_container :: "char \<Rightarrow> bool" where
  "is_container t \<longleftrightarrow> t \<in> {CHR ''v'', CHR ''a'', CHR ''r'', CHR ''e''}"

definition iter_recurse :: "'i dbus_lib \<Rightarrow> 'i \<Rightarrow> 'i result" where
  "iter_recurse lib i = (if is_container (arg_type lib i) then Inr (sub_iter lib i) else Inl LibraryMisuse)"

definition get_basic :: "'i dbus_lib \<Rightarrow> 'i \<Rightarrow> u8 list result" where
  "get_basic lib i = (if is_container (arg_type lib i) \<or> arg_type lib i = DBUS_TYPE_INVALID then Inl LibraryMisuse else Inr (basic_bytes lib i))"

record 'i dbus =
  live :: "addr \<rightharpoonup> 'i"
  top :: addr
  replies :: nat

definition malloc_iter :: "'i \<Rightarrow> 'i dbus \<Rightarrow> addr \<times> 'i dbus" where
  "malloc_iter i s = (top s, s\<lparr>live := (live s)(top s \<mapsto> i), top := Suc (top s)\<rparr>)"

definition free_iter :: "addr \<Rightarrow> 'i dbus \<Rightarrow> 'i dbus result" where
  "free_iter p s = bindE (release (live s) p) (\<lambda>h. Inr (s\<lparr>live := h\<rparr>))"

text \<open>Writing bytes through a pointer into a buffer.\<close>

definition store :: "u8 list \<Rightarrow> nat \<Rightarrow> u8 list \<Rightarrow> u8 list result" where
  "store buf off bs = (if off + length bs \<le> length buf then Inr (take off buf @ bs @ drop (off + length bs) buf) else Inl OutOfBounds)"

text \<open>Sequencing of computations that may also not return.\<close>

definition bindO :: "'a result option \<Rightarrow> ('a \<Rightarrow> 'b result option) \<Rightarrow> 'b result option" where
  "bindO r f = (case r of None \<Rightarrow> None | Some (Inl e) \<Rightarrow> Some (Inl e) | Some (Inr x) \<Rightarrow> f x)"

lemma bindO_simps [simp]: "bindO (Some (Inl e)) f = Some (Inl e)" "bindO (Some (Inr x)) f = f x" "bindO None f = None"
  by (simp_all add: bindO_def)

section \<open>Connection and request\<close>

definition mInterfaceName :: string where
  "mInterfaceName = ''io.openthread.BorderRouter''"

definition mServiceName :: string where
  "mServiceName = ''io.openthread.BorderRouter.wpan0''"

definition OTBR_DBUS_PROPERTY_CHANNEL :: string where
  "OTBR_DBUS_PROPERTY_CHANNEL = ''Channel''"

definition OTBR_DBUS_PROPERTY_PANID :: string where
  "OTBR_DBUS_PROPERTY_PANID = ''PanId''"

definition OTBR_DBUS_PROPERTY_EXTPANID :: string where
  "OTBR_DBUS_PROPERTY_EXTPANID = ''ExtPanId''"

definition OTBR_DBUS_PROPERTY_NETWORK_NAME :: string where
  "OTBR_DBUS_PROPERTY_NETWORK_NAME = ''NetworkName''"

definition OTBR_DBUS_PROPERTY_NETWORK_KEY :: string where
  "OTBR_DBUS_PROPERTY_NETWORK_KEY = ''NetworkKey''"

definition OTBR_DBUS_PROPERTY_ACTIVE_DATASET_TLVS :: string where
  "OTBR_DBUS_PROPERTY_ACTIVE_DATASET_TLVS = ''ActiveDatasetTlvs''"

definition dbus_init :: "bool \<Rightarrow> int \<Rightarrow> unit halt + int" where
  \<comment> \<open>whether the bus gave a connection, and what requesting the name returned (1 is the primary owner)\<close>
  "dbus_init connected ret =
     (if \<not> connected then Inl (Exit 1 ())
      else if ret \<noteq> 1 then Inl (Exit 1 ())
      else Inr 0)"

definition snprintf_input :: "string \<Rightarrow> string result" where
  \<comment> \<open>the bound given is the length of the string, not of the buffer, and the string is the format\<close>
  "snprintf_input fmt =
     (if CHR ''%'' \<in> set fmt then Inl LibraryMisuse
      else if length fmt + 1 > 1024 then Inl OutOfBounds
      else Inr fmt)"

definition method_call :: "'i dbus_lib \<Rightarrow> string \<Rightarrow> 'i dbus \<Rightarrow> ('i \<times> 'i dbus) result" where
  "method_call lib Properity s =
     (if \<not> request_made lib then Inl AssertionFailed
      else bindE (snprintf_input mInterfaceName) (\<lambda>a1.
      if \<not> appended lib a1 then Inl AssertionFailed
      else bindE (snprintf_input Properity) (\<lambda>a2.
      if \<not> appended lib a2 then Inl AssertionFailed
      else if \<not> sent_off lib then Inl AssertionFailed
      else if \<not> pending lib then Inl AssertionFailed
      else case reply_iter lib a1 a2 of
        None \<Rightarrow> Inl AssertionFailed
      | Some reply \<Rightarrow> Inr (reply, s\<lparr>replies := Suc (replies s)\<rparr>))))"

section \<open>Reading values\<close>

partial_function (option) dbus_iter_enter_recurse :: "'i dbus_lib \<Rightarrow> addr \<Rightarrow> 'i dbus \<Rightarrow> (addr \<times> char \<times> 'i dbus) result option" where
  "dbus_iter_enter_recurse lib iter s =
     (case bindE (load (live s) iter) (iter_recurse lib) of
        Inl f \<Rightarrow> Some (Inl f)
      | Inr i \<Rightarrow>
          (let (sub, s) = malloc_iter i s; bType = arg_type lib i in
           if bType = CHR ''v'' then
             Option.bind (dbus_iter_enter_recurse lib sub s) (\<lambda>r.
               Some (bindE r (\<lambda>(ret, t, s). bindE (free_iter sub s) (\<lambda>s. Inr (ret, t, s)))))
           else Some (Inr (sub, bType, s))))"

partial_function (option) array_loop :: "'i dbus_lib \<Rightarrow> 'i \<Rightarrow> char \<Rightarrow> 'i \<Rightarrow> nat \<Rightarrow> u8 list \<Rightarrow> u8 list result option" where
  \<comment> \<open>\<open>iter\<close> is the array, \<open>ele\<close> the current element, \<open>off\<close> how far the output pointer has moved\<close>
  "array_loop lib iter elementType ele off buf =
     (case (if elementType = CHR ''y'' then bindE (get_basic lib ele) (store buf off)
            else bindE (get_basic lib iter) (store buf off)) of
        Inl f \<Rightarrow> Some (Inl f)
      | Inr buf \<Rightarrow>
          let off = (if elementType = CHR ''y'' then off + 1 else off) in
          (case next_iter lib ele of
             None \<Rightarrow> Some (Inr buf)
           | Some ele \<Rightarrow> array_loop lib iter elementType ele off buf))"

definition fall_off :: "'i dbus_lib \<Rightarrow> 'a \<Rightarrow> 'a result option" where
  \<comment> \<open>the end of a function without the value it should return\<close>
  "fall_off lib x = Some (if flows_off lib then Inr x else Inl MissingReturn)"

definition dbus_dataTye_array_parse :: "'i dbus_lib \<Rightarrow> 'i \<Rightarrow> u8 list \<Rightarrow> u8 list result option" where
  "dbus_dataTye_array_parse lib iter buf =
     (case iter_recurse lib iter of
        Inl f \<Rightarrow> Some (Inl f)
      | Inr ele \<Rightarrow>
          let elementType = arg_type lib ele in
          if elementType = DBUS_TYPE_INVALID then Some (Inr buf)
          else bindO (array_loop lib iter elementType ele 0 buf) (fall_off lib))"

definition dbus_dataType_parse :: "'i dbus_lib \<Rightarrow> 'i \<Rightarrow> char \<Rightarrow> u8 list \<Rightarrow> u8 list result option" where
  "dbus_dataType_parse lib iter iterType buf =
     bindO
       (if iterType \<in> {CHR ''q'', CHR ''t'', CHR ''s''} then Some (bindE (get_basic lib iter) (store buf 0))
        else if iterType = CHR ''a'' then dbus_dataTye_array_parse lib iter buf
        else Some (bindE (get_basic lib iter) (store buf 0)))
       (fall_off lib)"

definition dbus_dataType_parse1 :: "'i dbus_lib \<Rightarrow> 'i \<Rightarrow> char \<Rightarrow> u8 list \<Rightarrow> u8 list result option" where
  "dbus_dataType_parse1 lib iter iterType buf =
     bindO
       (Some (if iterType = CHR ''s'' then bindE (get_basic lib iter) (\<lambda>_. Inr buf) \<comment> \<open>printed, not stored\<close>
              else bindE (get_basic lib iter) (store buf 0)))
       (fall_off lib)"

section \<open>Queries\<close>

text \<open>
  The common part of the three queries. The test for a variant is an assignment, so it always
  succeeds. The iterator of the reply is freed in no case, the reply only on the way to the end.
\<close>

definition enter_reply :: "'i dbus_lib \<Rightarrow> string \<Rightarrow> 'i dbus \<Rightarrow> ((addr \<times> char) option \<times> 'i dbus) result option" where
  "enter_reply lib Properity s =
     (case method_call lib Properity s of
        Inl f \<Rightarrow> Some (Inl f)
      | Inr (i, s) \<Rightarrow>
          let (dataRecievedIter, s) = malloc_iter i s; aType = arg_type lib i in
          if aType = DBUS_TYPE_INVALID then Some (Inr (None, s))
          else bindO (dbus_iter_enter_recurse lib dataRecievedIter s) (\<lambda>(p, t, s). Some (Inr (Some (p, t), s))))"

definition leave_reply :: "addr \<Rightarrow> 'i dbus \<Rightarrow> 'i dbus result" where
  "leave_reply pIter s = bindE (free_iter pIter s) (\<lambda>s. Inr (s\<lparr>replies := replies s - 1\<rparr>))"

definition query_uint16 :: "'i dbus_lib \<Rightarrow> string \<Rightarrow> u8 list \<Rightarrow> 'i dbus \<Rightarrow> (int \<times> u8 list \<times> 'i dbus) result option" where
  "query_uint16 lib Properity aValue s =
     bindO (enter_reply lib Properity s) (\<lambda>(ret, s).
     case ret of
       None \<Rightarrow> Some (Inr (- 1, aValue, s))
     | Some (pIter, aType) \<Rightarrow>
         Some (bindE (if aType = CHR ''q'' then bindE (load (live s) pIter) (\<lambda>i. bindE (get_basic lib i) (store aValue 0)) else Inr aValue) (\<lambda>aValue.
         bindE (leave_reply pIter s) (\<lambda>s. Inr (0, aValue, s)))))"

definition query_uint8 :: "'i dbus_lib \<Rightarrow> string \<Rightarrow> u8 list \<Rightarrow> 'i dbus \<Rightarrow> (int \<times> u8 list \<times> 'i dbus) result option" where
  "query_uint8 lib Properity aValue s =
     bindO (enter_reply lib Properity s) (\<lambda>(ret, s).
     case ret of
       None \<Rightarrow> Some (Inr (- 1, aValue, s))
     | Some (pIter, aType) \<Rightarrow>
         bindO (Some (load (live s) pIter)) (\<lambda>i.
         bindO (dbus_dataType_parse lib i aType aValue) (\<lambda>aValue.
         Some (bindE (leave_reply pIter s) (\<lambda>s. Inr (0, aValue, s))))))"

definition query_void :: "'i dbus_lib \<Rightarrow> string \<Rightarrow> u8 list \<Rightarrow> 'i dbus \<Rightarrow> (int \<times> u8 list \<times> 'i dbus) result option" where
  \<comment> \<open>its test for a null reply never succeeds, since \<^verbatim>\<open>method_call\<close> asserts one; the rest is that of the query for bytes\<close>
  "query_void = query_uint8"

text \<open>
  The variables that \<^verbatim>\<open>main\<close> fills. The first has no initial value, and the buffer is used twice: the
  call that should clear it in between has its last two arguments exchanged and clears nothing. The
  network name is printed through a pointer into the reply, which the query has released: \<open>readable\<close> says
  whether a string can still be read there.
\<close>

record main_vars =
  channel :: "u8 list"
  extPanId :: "u8 list"
  sPtr :: "u8 list"
  buff :: "u8 list"

definition dbus_main :: "'i dbus_lib \<Rightarrow> (u8 list \<Rightarrow> bool) \<Rightarrow> bool \<Rightarrow> int \<Rightarrow> u8 list \<Rightarrow> 'i dbus \<Rightarrow> unit halt + (main_vars \<times> 'i dbus) result option" where
  "dbus_main lib readable connected ret uninit s =
     bindE (dbus_init connected ret) (\<lambda>_. Inr (
     let v = \<lparr>channel = uninit, extPanId = replicate 128 0, sPtr = replicate 8 0, buff = replicate 128 0\<rparr> in
     bindO (query_uint16 lib OTBR_DBUS_PROPERTY_CHANNEL (channel v) s) (\<lambda>(_, x, s). let v = v\<lparr>channel := x\<rparr> in
     bindO (query_uint16 lib OTBR_DBUS_PROPERTY_PANID (channel v) s) (\<lambda>(_, x, s). let v = v\<lparr>channel := x\<rparr> in
     bindO (query_uint8 lib OTBR_DBUS_PROPERTY_EXTPANID (extPanId v) s) (\<lambda>(_, x, s). let v = v\<lparr>extPanId := x\<rparr> in
     bindO (query_void lib OTBR_DBUS_PROPERTY_NETWORK_NAME (sPtr v) s) (\<lambda>(_, x, s). let v = v\<lparr>sPtr := x\<rparr> in
     if \<not> readable (sPtr v) then Some (Inl DanglingDeref) else
     bindO (query_uint8 lib OTBR_DBUS_PROPERTY_NETWORK_KEY (buff v) s) (\<lambda>(_, x, s). let v = v\<lparr>buff := x\<rparr> in
     bindO (query_uint8 lib OTBR_DBUS_PROPERTY_ACTIVE_DATASET_TLVS (buff v) s) (\<lambda>(_, x, s). let v = v\<lparr>buff := x\<rparr> in
     Some (Inr (v, s))))))))))"

section \<open>What an iterator leads to\<close>

text \<open>Unwrapping variants: the first content that is not a variant.\<close>

inductive unwraps :: "'i dbus_lib \<Rightarrow> 'i \<Rightarrow> 'i \<Rightarrow> bool" for lib where
  here: "is_container (arg_type lib i) \<Longrightarrow> arg_type lib (sub_iter lib i) \<noteq> CHR ''v'' \<Longrightarrow> unwraps lib i (sub_iter lib i)"
| deeper: "is_container (arg_type lib i) \<Longrightarrow> arg_type lib (sub_iter lib i) = CHR ''v'' \<Longrightarrow> unwraps lib (sub_iter lib i) j \<Longrightarrow> unwraps lib i j"

text \<open>The bytes of an array, from an element on.\<close>

inductive yields :: "'i dbus_lib \<Rightarrow> 'i \<Rightarrow> u8 list \<Rightarrow> bool" for lib where
  last: "arg_type lib i = CHR ''y'' \<Longrightarrow> basic_bytes lib i = [b] \<Longrightarrow> next_iter lib i = None \<Longrightarrow> yields lib i [b]"
| more: "arg_type lib i = CHR ''y'' \<Longrightarrow> basic_bytes lib i = [b] \<Longrightarrow> next_iter lib i = Some i' \<Longrightarrow> yields lib i' bs \<Longrightarrow> yields lib i (b # bs)"

definition heap_ok :: "'i dbus \<Rightarrow> bool" where
  "heap_ok s \<longleftrightarrow> 0 < top s \<and> (\<forall>p \<ge> top s. live s p = None)"

lemma malloc_ok:
  assumes "heap_ok s" "malloc_iter i s = (p, s')"
  shows "p = top s" "p \<noteq> null" "live s p = None" "live s' = (live s)(p \<mapsto> i)" "heap_ok s'" "replies s' = replies s" "top s' = Suc (top s)"
  using assms by (auto simp: malloc_iter_def heap_ok_def)

lemma enter_recurse_unwraps:
  assumes "unwraps lib i j" "heap_ok s" "iter \<noteq> null" "live s iter = Some i"
  shows "\<exists>q s'. dbus_iter_enter_recurse lib iter s = Some (Inr (q, arg_type lib j, s')) \<and> q \<noteq> null \<and> top s \<le> q \<and>
    live s' = (live s)(q \<mapsto> j) \<and> heap_ok s' \<and> replies s' = replies s"
  using assms
proof (induction arbitrary: s iter rule: unwraps.induct)
  case (here i)
  obtain p s1 where m: "malloc_iter (sub_iter lib i) s = (p, s1)" by fastforce
  show ?case
    using here m malloc_ok [OF here(3) m] by (subst dbus_iter_enter_recurse.simps) (simp add: load_valid iter_recurse_def)
next
  case (deeper i j)
  obtain p s1 where m: "malloc_iter (sub_iter lib i) s = (p, s1)" by fastforce
  note s1 = malloc_ok [OF deeper.prems(1) m]
  obtain q s2 where q: "dbus_iter_enter_recurse lib p s1 = Some (Inr (q, arg_type lib j, s2))" "q \<noteq> null" "top s1 \<le> q"
      "live s2 = (live s1)(q \<mapsto> j)" "heap_ok s2" "replies s2 = replies s1"
    using deeper.IH [OF s1(5,2)] s1(4) by (metis fun_upd_same)
  have free: "free_iter p s2 = Inr (s2\<lparr>live := (live s2)(p := None)\<rparr>)"
    using q s1 by (simp add: free_iter_def fault_simps)
  have "(live s2)(p := None) = (live s)(q \<mapsto> j)" using q s1 by (auto simp: fun_eq_iff)
  moreover have "heap_ok (s2\<lparr>live := (live s2)(p := None)\<rparr>)" using q(5) by (simp add: heap_ok_def)
  ultimately show ?case
    using deeper m s1 q free by (subst dbus_iter_enter_recurse.simps) (simp add: load_valid iter_recurse_def)
qed

lemma array_loop_yields:
  assumes "yields lib ele bs" "off \<le> length buf"
  shows "array_loop lib iter (CHR ''y'') ele off buf = Some (store buf off bs)"
  using assms
proof (induction arbitrary: off buf rule: yields.induct)
  case (last i b)
  then show ?case
    by (subst array_loop.simps) (simp add: get_basic_def is_container_def DBUS_TYPE_INVALID_def store_def)
next
  case (more i b i' bs)
  show ?case
  proof (cases "off < length buf")
    case True
    then have "store buf off [b] = Inr (take off buf @ [b] @ drop (off + 1) buf)" by (simp add: store_def)
    moreover have "store (take off buf @ [b] @ drop (off + 1) buf) (off + 1) bs = store buf off (b # bs)"
      using True by (auto simp: store_def add.commute)
    ultimately show ?thesis
      using more True by (subst array_loop.simps) (simp add: get_basic_def is_container_def DBUS_TYPE_INVALID_def)
  next
    case False
    with more show ?thesis
      by (subst array_loop.simps) (simp add: get_basic_def is_container_def DBUS_TYPE_INVALID_def store_def)
  qed
qed

text \<open>A property name that the request can carry.\<close>

definition sendable :: "string \<Rightarrow> bool" where
  "sendable p \<longleftrightarrow> CHR ''%'' \<notin> set p \<and> length p < 1024"

text \<open>The request for a property goes through and is answered.\<close>

definition delivers :: "'i dbus_lib \<Rightarrow> string \<Rightarrow> 'i \<Rightarrow> bool" where
  "delivers lib p i \<longleftrightarrow> request_made lib \<and> appended lib mInterfaceName \<and> appended lib p \<and> sent_off lib \<and> pending lib \<and>
     reply_iter lib mInterfaceName p = Some i"

lemma method_call_sendable:
  assumes "sendable p"
  shows "delivers lib p i \<Longrightarrow> method_call lib p s = Inr (i, s\<lparr>replies := Suc (replies s)\<rparr>)"
    and "\<nexists>i. delivers lib p i \<Longrightarrow> method_call lib p s = Inl AssertionFailed"
  using assms by (auto simp: method_call_def snprintf_input_def sendable_def mInterfaceName_def delivers_def split: option.split)

lemma unwraps_container: "unwraps lib i j \<Longrightarrow> arg_type lib i \<noteq> DBUS_TYPE_INVALID"
  by (erule unwraps.cases) (auto simp: is_container_def DBUS_TYPE_INVALID_def)

lemma enter_reply_unwraps:
  assumes "sendable p" "heap_ok s" "delivers lib p i" "unwraps lib i j"
  shows "\<exists>q s'. enter_reply lib p s = Some (Inr (Some (q, arg_type lib j), s')) \<and> load (live s') q = Inr j \<and>
    (\<exists>s''. leave_reply q s' = Inr s'' \<and> live s'' = (live s)(top s \<mapsto> i) \<and> replies s'' = replies s \<and> heap_ok s'')"
proof -
  let ?s = "s\<lparr>replies := Suc (replies s)\<rparr>"
  obtain d s1 where m: "malloc_iter i ?s = (d, s1)" by fastforce
  have "heap_ok ?s" using assms(2) by (simp add: heap_ok_def)
  note s1 = malloc_ok [OF this m]
  obtain q s2 where q: "dbus_iter_enter_recurse lib d s1 = Some (Inr (q, arg_type lib j, s2))" "q \<noteq> null" "top s1 \<le> q"
      "live s2 = (live s1)(q \<mapsto> j)" "replies s2 = replies s1" "heap_ok s2"
    using enter_recurse_unwraps [OF assms(4) s1(5,2)] s1(4) by auto
  have leave: "leave_reply q s2 = Inr (s2\<lparr>live := (live s2)(q := None), replies := replies s\<rparr>)"
    using q s1 by (simp add: leave_reply_def free_iter_def fault_simps)
  have "live s q = None" using q(3) s1(7) assms(2) by (simp add: heap_ok_def)
  then have "(live s2)(q := None) = (live s)(top s \<mapsto> i)" using q s1 by (auto simp: fun_eq_iff)
  moreover have "heap_ok (s2\<lparr>live := (live s2)(q := None), replies := replies s\<rparr>)" using q(6) by (simp add: heap_ok_def)
  ultimately show ?thesis using leave q m s1 assms unwraps_container [OF assms(4)]
    by (simp add: enter_reply_def method_call_sendable(1) [OF assms(1,3)] load_valid)
qed

section \<open>The program\<close>

text \<open>
  What a border router answers: a value behind variants, of a basic type with its bytes or an array of
  bytes, which may be empty.
\<close>

definition answers :: "'i dbus_lib \<Rightarrow> string \<Rightarrow> char \<Rightarrow> u8 list \<Rightarrow> bool" where
  "answers lib p t bs \<longleftrightarrow> (\<exists>i j. delivers lib p i \<and> unwraps lib i j \<and> arg_type lib j = t \<and> basic_bytes lib j = bs)"

definition array_bytes :: "'i dbus_lib \<Rightarrow> 'i \<Rightarrow> u8 list \<Rightarrow> bool" where
  "array_bytes lib j bs \<longleftrightarrow> arg_type lib j = CHR ''a'' \<and>
     (if bs = [] then arg_type lib (sub_iter lib j) = DBUS_TYPE_INVALID else yields lib (sub_iter lib j) bs)"

definition answers_bytes :: "'i dbus_lib \<Rightarrow> string \<Rightarrow> u8 list \<Rightarrow> bool" where
  "answers_bytes lib p bs \<longleftrightarrow> (\<exists>i j. delivers lib p i \<and> unwraps lib i j \<and> array_bytes lib j bs)"

text \<open>\<open>n\<close> iterators more are allocated than before and every reply is released.\<close>

definition leaves :: "nat \<Rightarrow> 'i dbus \<Rightarrow> 'i dbus \<Rightarrow> bool" where
  "leaves n s s' \<longleftrightarrow> heap_ok s' \<and> replies s' = replies s \<and> live s \<subseteq>\<^sub>m live s' \<and>
     finite (dom (live s') - dom (live s)) \<and> card (dom (live s') - dom (live s)) = n"

lemma leaves_one:
  assumes "heap_ok s" "heap_ok s'" "live s' = (live s)(top s \<mapsto> i)" "replies s' = replies s"
  shows "leaves 1 s s'"
proof -
  have new: "live s (top s) = None" using assms(1) by (simp add: heap_ok_def)
  then have "dom (live s') - dom (live s) = {top s}" using assms(3) by auto
  then show ?thesis using assms new by (auto simp: leaves_def map_le_def)
qed

lemma leaves_trans:
  assumes "leaves m s s'" "leaves n s' s''"
  shows "leaves (m + n) s s''"
proof -
  have "dom (live s) \<subseteq> dom (live s')" "dom (live s') \<subseteq> dom (live s'')"
    using assms by (auto simp: leaves_def dest: map_le_implies_dom_le)
  then have "dom (live s'') - dom (live s) = (dom (live s') - dom (live s)) \<union> (dom (live s'') - dom (live s'))"
    and "(dom (live s') - dom (live s)) \<inter> (dom (live s'') - dom (live s')) = {}" by auto
  with assms show ?thesis by (auto simp: leaves_def card_Un_disjoint intro: map_le_trans)
qed

lemma leaves_ok: "leaves n s s' \<Longrightarrow> heap_ok s'"
  by (simp add: leaves_def)

lemma answered_reply:
  assumes "sendable p" "heap_ok s" "delivers lib p i" "unwraps lib i j"
  obtains q s1 s2 where "enter_reply lib p s = Some (Inr (Some (q, arg_type lib j), s1))" "load (live s1) q = Inr j"
    "leave_reply q s1 = Inr s2" "leaves 1 s s2"
  using enter_reply_unwraps [OF assms] leaves_one [OF assms(2)] by blast

lemma query_uint16_answered:
  assumes "sendable p" "heap_ok s" "answers lib p (CHR ''q'') bs" "length bs = 2" "length v = 2"
  obtains s' where "query_uint16 lib p v s = Some (Inr (0, bs, s'))" "leaves 1 s s'"
proof -
  from assms(3) obtain i j where i: "delivers lib p i" and j: "unwraps lib i j" "arg_type lib j = CHR ''q''" "basic_bytes lib j = bs"
    by (auto simp: answers_def)
  obtain q s1 s2 where "enter_reply lib p s = Some (Inr (Some (q, arg_type lib j), s1))" "load (live s1) q = Inr j"
    "leave_reply q s1 = Inr s2" "leaves 1 s s2" by (rule answered_reply [OF assms(1,2) i j(1)])
  with j assms(4,5) show ?thesis
    by (intro that) (auto simp: query_uint16_def get_basic_def is_container_def DBUS_TYPE_INVALID_def store_def)
qed

lemma query_uint8_answered:
  assumes "sendable p" "heap_ok s" "answers lib p t bs" "t = CHR ''t'' \<or> t = CHR ''s''" "length bs \<le> length v"
  obtains s' where "leaves 1 s s'"
    "query_uint8 lib p v s = Some (if flows_off lib then Inr (0, bs @ drop (length bs) v, s') else Inl MissingReturn)"
proof -
  from assms(3) obtain i j where i: "delivers lib p i" and j: "unwraps lib i j" "arg_type lib j = t" "basic_bytes lib j = bs"
    by (auto simp: answers_def)
  obtain q s1 s2 where "enter_reply lib p s = Some (Inr (Some (q, arg_type lib j), s1))" "load (live s1) q = Inr j"
    "leave_reply q s1 = Inr s2" "leaves 1 s s2" by (rule answered_reply [OF assms(1,2) i j(1)])
  with j assms(4,5) show ?thesis
    by (intro that) (auto simp: query_uint8_def dbus_dataType_parse_def fall_off_def get_basic_def is_container_def DBUS_TYPE_INVALID_def store_def)
qed

lemma array_parse_bytes:
  assumes "array_bytes lib j bs"
  shows "dbus_dataType_parse lib j (CHR ''a'') buf = bindO (Some (store buf 0 bs)) (fall_off lib)"
proof (cases "bs = []")
  case True
  with assms show ?thesis
    by (simp add: array_bytes_def dbus_dataType_parse_def dbus_dataTye_array_parse_def iter_recurse_def is_container_def store_def)
next
  case False
  with assms have y: "arg_type lib j = CHR ''a''" "yields lib (sub_iter lib j) bs" by (simp_all add: array_bytes_def)
  have "arg_type lib (sub_iter lib j) = CHR ''y''" using y(2) by (auto elim: yields.cases)
  with y array_loop_yields [OF y(2), of 0 buf] show ?thesis
    by (cases "store buf 0 bs") (simp_all add: dbus_dataType_parse_def dbus_dataTye_array_parse_def iter_recurse_def is_container_def
        DBUS_TYPE_INVALID_def fall_off_def)
qed

lemma query_bytes_exact:
  assumes "sendable p" "heap_ok s" "delivers lib p i" "unwraps lib i j" "array_bytes lib j bs"
  obtains s' where "leaves 1 s s'" "live s' = (live s)(top s \<mapsto> i)"
    "query_uint8 lib p v s = Some (if length v < length bs then Inl OutOfBounds else if \<not> flows_off lib then Inl MissingReturn
       else Inr (0, bs @ drop (length bs) v, s'))"
proof -
  have j: "arg_type lib j = CHR ''a''" using assms(5) by (simp add: array_bytes_def)
  obtain q s1 s2 where "enter_reply lib p s = Some (Inr (Some (q, arg_type lib j), s1))" "load (live s1) q = Inr j"
    "leave_reply q s1 = Inr s2" "live s2 = (live s)(top s \<mapsto> i)" "leaves 1 s s2"
    using enter_reply_unwraps [OF assms(1-4)] leaves_one [OF assms(2)] by blast
  with j array_parse_bytes [OF assms(5)] show ?thesis
    by (intro that [of s2]) (auto simp: query_uint8_def store_def fall_off_def)
qed

lemma query_bytes_answered:
  assumes "sendable p" "heap_ok s" "answers_bytes lib p bs" "flows_off lib"
  obtains s' where "leaves 1 s s'"
    "query_uint8 lib p v s = (if length bs \<le> length v then Some (Inr (0, bs @ drop (length bs) v, s')) else Some (Inl OutOfBounds))"
proof -
  from assms(3) obtain i j where i: "delivers lib p i" "unwraps lib i j" "array_bytes lib j bs" by (auto simp: answers_bytes_def)
  obtain s' where s': "leaves 1 s s'" "query_uint8 lib p v s = Some (if length v < length bs then Inl OutOfBounds
      else if \<not> flows_off lib then Inl MissingReturn else Inr (0, bs @ drop (length bs) v, s'))"
    by (rule query_bytes_exact [OF assms(1,2) i])
  then show ?thesis using assms(4) by (intro that [of s']) auto
qed

text \<open>
  C15. Reading an array of bytes, an empty one too, out of a reply that has arrived: however deep it nests its
  variants, the query finds the array. More bytes than the caller's buffer holds are written past
  its end, since the size is never passed. If they fit they are copied to its front, but then the two functions that
  read the value end without returning one, which is undefined: the query goes on only where such
  a function comes back to its caller. There it returns 0, leaves one iterator allocated and releases the reply.
\<close>

theorem dbus_query_bytes:
  assumes "sendable p" "heap_ok s" "delivers lib p i" "unwraps lib i j" "array_bytes lib j bs"
  shows "if length buf < length bs then query_uint8 lib p buf s = Some (Inl OutOfBounds)
    else if \<not> flows_off lib then query_uint8 lib p buf s = Some (Inl MissingReturn)
    else \<exists>s'. query_uint8 lib p buf s = Some (Inr (0, bs @ drop (length bs) buf, s')) \<and>
      live s' = (live s)(top s \<mapsto> i) \<and> replies s' = replies s"
proof -
  obtain s' where "leaves 1 s s'" "live s' = (live s)(top s \<mapsto> i)" "query_uint8 lib p buf s = Some (if length buf < length bs then Inl OutOfBounds
      else if \<not> flows_off lib then Inl MissingReturn else Inr (0, bs @ drop (length bs) buf, s'))"
    by (rule query_bytes_exact [OF assms])
  then show ?thesis by (auto simp: leaves_def)
qed

text \<open>
  C17. Reading a 16-bit property. If the request cannot be made, sent or answered, an assertion ends the
  program. A reply that unwraps to a 16-bit value stores its two bytes; one that unwraps to anything else stores
  nothing, and both return 0, so the caller cannot tell. A reply
  that is no container, such as an error with its message, is recursed into all the same, outside what the
  library allows. An empty reply returns -1 and is not released.
\<close>

theorem dbus_query_uint16:
  assumes "sendable p" "heap_ok s" "length v = 2"
  shows "((\<nexists>i. delivers lib p i) \<longrightarrow> query_uint16 lib p v s = Some (Inl AssertionFailed)) \<and>
    (\<forall>i. delivers lib p i \<longrightarrow>
      (\<forall>j. unwraps lib i j \<longrightarrow> (arg_type lib j = CHR ''q'' \<longrightarrow> length (basic_bytes lib j) = 2) \<longrightarrow>
        (\<exists>s'. query_uint16 lib p v s = Some (Inr (0, if arg_type lib j = CHR ''q'' then basic_bytes lib j else v, s')) \<and>
          live s' = (live s)(top s \<mapsto> i) \<and> replies s' = replies s)) \<and>
      (\<not> is_container (arg_type lib i) \<longrightarrow> arg_type lib i \<noteq> DBUS_TYPE_INVALID \<longrightarrow> query_uint16 lib p v s = Some (Inl LibraryMisuse)) \<and>
      (arg_type lib i = DBUS_TYPE_INVALID \<longrightarrow>
        (\<exists>s'. query_uint16 lib p v s = Some (Inr (- 1, v, s')) \<and> live s' = (live s)(top s \<mapsto> i) \<and> replies s' = Suc (replies s))))"
proof (intro conjI allI impI)
  assume "\<nexists>i. delivers lib p i"
  from method_call_sendable(2) [OF assms(1) this, of s] show "query_uint16 lib p v s = Some (Inl AssertionFailed)"
    by (simp add: query_uint16_def enter_reply_def)
next
  fix i
  assume i: "delivers lib p i"
  let ?s = "s\<lparr>replies := Suc (replies s)\<rparr>"
  obtain d s1 where m: "malloc_iter i ?s = (d, s1)" by fastforce
  have "heap_ok ?s" using assms(2) by (simp add: heap_ok_def)
  note s1 = malloc_ok [OF this m]
  note call = method_call_sendable(1) [OF assms(1) i]
  show "query_uint16 lib p v s = Some (Inl LibraryMisuse)"
    if "\<not> is_container (arg_type lib i)" "arg_type lib i \<noteq> DBUS_TYPE_INVALID"
  proof -
    have "dbus_iter_enter_recurse lib d s1 = Some (Inl LibraryMisuse)"
      using that s1 by (subst dbus_iter_enter_recurse.simps) (simp add: load_valid iter_recurse_def)
    with that m call show ?thesis by (simp add: query_uint16_def enter_reply_def)
  qed
  show "\<exists>s'. query_uint16 lib p v s = Some (Inr (- 1, v, s')) \<and> live s' = (live s)(top s \<mapsto> i) \<and> replies s' = Suc (replies s)"
    if "arg_type lib i = DBUS_TYPE_INVALID"
    using that m s1 call by (simp add: query_uint16_def enter_reply_def)
  show "\<exists>s'. query_uint16 lib p v s = Some (Inr (0, if arg_type lib j = CHR ''q'' then basic_bytes lib j else v, s')) \<and>
        live s' = (live s)(top s \<mapsto> i) \<and> replies s' = replies s"
    if "unwraps lib i j" "arg_type lib j = CHR ''q'' \<longrightarrow> length (basic_bytes lib j) = 2" for j
    using enter_reply_unwraps [OF assms(1,2) i that(1)] that(2) assms(3)
    by (cases "arg_type lib j = CHR ''q''") (auto simp: query_uint16_def get_basic_def is_container_def DBUS_TYPE_INVALID_def store_def)
qed

lemmas property_names = OTBR_DBUS_PROPERTY_CHANNEL_def OTBR_DBUS_PROPERTY_PANID_def OTBR_DBUS_PROPERTY_EXTPANID_def
  OTBR_DBUS_PROPERTY_NETWORK_NAME_def OTBR_DBUS_PROPERTY_NETWORK_KEY_def OTBR_DBUS_PROPERTY_ACTIVE_DATASET_TLVS_def

lemma properties_sendable:
  "sendable OTBR_DBUS_PROPERTY_CHANNEL" "sendable OTBR_DBUS_PROPERTY_PANID" "sendable OTBR_DBUS_PROPERTY_EXTPANID"
  "sendable OTBR_DBUS_PROPERTY_NETWORK_NAME" "sendable OTBR_DBUS_PROPERTY_NETWORK_KEY" "sendable OTBR_DBUS_PROPERTY_ACTIVE_DATASET_TLVS"
  by (simp_all add: sendable_def property_names)

text \<open>
  C16. The whole program against a border router that answers every request, with the documented types. Without a
  connection or the bus name it exits with 1. Otherwise the two 16-bit properties are read, and reading the third
  property goes through functions that end without returning a value: where those do not come back the
  program ends there. The network name is then printed through a pointer to released memory. If that can
  still be read, all six queries are made and succeed as long as
  key and dataset, which may be empty, fit the buffer of 128 bytes: the variable of the channel ends with the PAN identifier, the
  buffer with the dataset over what the key left there, every reply is released and six iterators are
  leaked. A longer key or dataset is written past the end of the buffer.
\<close>

theorem dbus_main_run:
  assumes "heap_ok s" "length uninit = 2"
    and "answers lib OTBR_DBUS_PROPERTY_CHANNEL (CHR ''q'') ch" "length ch = 2"
    and "answers lib OTBR_DBUS_PROPERTY_PANID (CHR ''q'') pan" "length pan = 2"
    and "answers lib OTBR_DBUS_PROPERTY_EXTPANID (CHR ''t'') ext" "length ext = 8"
    and "answers lib OTBR_DBUS_PROPERTY_NETWORK_NAME (CHR ''s'') ptr" "length ptr = 8"
    and "answers_bytes lib OTBR_DBUS_PROPERTY_NETWORK_KEY key"
    and "answers_bytes lib OTBR_DBUS_PROPERTY_ACTIVE_DATASET_TLVS ds"
  shows "(if \<not> flows_off lib then dbus_main lib readable True 1 uninit s = Inr (Some (Inl MissingReturn))
      else if \<not> readable ptr then dbus_main lib readable True 1 uninit s = Inr (Some (Inl DanglingDeref))
      else if length key \<le> 128 \<and> length ds \<le> 128
      then \<exists>s'. dbus_main lib readable True 1 uninit s = Inr (Some (Inr (\<lparr>channel = pan, extPanId = ext @ replicate 120 0, sPtr = ptr,
        buff = ds @ drop (length ds) (key @ replicate (128 - length key) 0)\<rparr>, s'))) \<and> leaves 6 s s'
      else dbus_main lib readable True 1 uninit s = Inr (Some (Inl OutOfBounds))) \<and>
    (connected = False \<or> ret \<noteq> 1 \<longrightarrow> dbus_main lib readable connected ret uninit s = Inl (Exit 1 ()))"
proof -
  obtain s1 where q1: "query_uint16 lib OTBR_DBUS_PROPERTY_CHANNEL uninit s = Some (Inr (0, ch, s1))" "leaves 1 s s1"
    by (rule query_uint16_answered [OF properties_sendable(1) assms(1,3,4,2)])
  obtain s2 where q2: "query_uint16 lib OTBR_DBUS_PROPERTY_PANID ch s1 = Some (Inr (0, pan, s2))" "leaves 1 s1 s2"
    by (rule query_uint16_answered [OF properties_sendable(2) leaves_ok [OF q1(2)] assms(5,6,4)])
  have fit: "length ext \<le> length (replicate 128 (0 :: u8))" "length ptr \<le> length (replicate 8 (0 :: u8))" using assms(8,10) by simp_all
  obtain s3 where q3: "leaves 1 s2 s3" "query_uint8 lib OTBR_DBUS_PROPERTY_EXTPANID (replicate 128 0) s2 =
      Some (if flows_off lib then Inr (0, ext @ drop (length ext) (replicate 128 0), s3) else Inl MissingReturn)"
    by (rule query_uint8_answered [OF properties_sendable(3) leaves_ok [OF q2(2)] assms(7) disjI1 [OF refl] fit(1)])
  have conn: "dbus_main lib readable connected ret uninit s = Inl (Exit 1 ())" if "connected = False \<or> ret \<noteq> 1"
    using that by (auto simp: dbus_main_def dbus_init_def)
  show ?thesis
  proof (cases "flows_off lib")
    case False
    with conn show ?thesis by (simp add: dbus_main_def dbus_init_def q1(1) q2(1) q3(2))
  next
    case True
    obtain s4 where q4: "leaves 1 s3 s4" "query_uint8 lib OTBR_DBUS_PROPERTY_NETWORK_NAME (replicate 8 0) s3 =
        Some (if flows_off lib then Inr (0, ptr @ drop (length ptr) (replicate 8 0), s4) else Inl MissingReturn)"
      by (rule query_uint8_answered [OF properties_sendable(4) leaves_ok [OF q3(1)] assms(9) disjI2 [OF refl] fit(2)])
    let ?b = "key @ drop (length key) (replicate 128 0)"
    obtain s5 where q5: "leaves 1 s4 s5" "query_uint8 lib OTBR_DBUS_PROPERTY_NETWORK_KEY (replicate 128 0) s4 =
        (if length key \<le> length (replicate 128 (0 :: u8)) then Some (Inr (0, ?b, s5)) else Some (Inl OutOfBounds))"
      by (rule query_bytes_answered [OF properties_sendable(5) leaves_ok [OF q4(1)] assms(11) True])
    obtain s6 where q6: "leaves 1 s5 s6" "query_uint8 lib OTBR_DBUS_PROPERTY_ACTIVE_DATASET_TLVS ?b s5 =
        (if length ds \<le> length ?b then Some (Inr (0, ds @ drop (length ds) ?b, s6)) else Some (Inl OutOfBounds))"
      by (rule query_bytes_answered [OF properties_sendable(6) leaves_ok [OF q5(1)] assms(12) True])
    note l = leaves_trans [OF q1(2) leaves_trans [OF q2(2) leaves_trans [OF q3(1) leaves_trans [OF q4(1) leaves_trans [OF q5(1) q6(1)]]]]]
    have six: "leaves 6 s s6" using l by (simp add: numeral_eq_Suc)
    have drops: "drop (length ext) (replicate 128 0) = replicate 120 (0 :: u8)" "drop (length ptr) (replicate 8 0) = ([] :: u8 list)"
      using assms(8,10) by simp_all
    have run: "dbus_main lib readable True 1 uninit s = Inr (
        if \<not> readable ptr then Some (Inl DanglingDeref)
        else if length key \<le> 128 then
          if length ds \<le> 128 then Some (Inr (\<lparr>channel = pan, extPanId = ext @ replicate 120 0, sPtr = ptr, buff = ds @ drop (length ds) ?b\<rparr>, s6))
          else Some (Inl OutOfBounds)
        else Some (Inl OutOfBounds))"
      by (simp add: dbus_main_def dbus_init_def query_void_def q1(1) q2(1) q3(2) q4(2) True q5(2) q6(2) drops del: drop_append drop_replicate)
    show ?thesis using True conn six unfolding run by (simp del: drop_append)
  qed
qed

section \<open>Examples\<close>

text \<open>Iterators are numbers: 1 is a reply with two bytes inside two variants, 10 one with a 16-bit value, 20 an error message.\<close>

definition dbus_example :: "nat dbus_lib" where
  "dbus_example = \<lparr>arg_type = (\<lambda>i. if i \<in> {1, 2, 10} then CHR ''v'' else if i = 3 then CHR ''a'' else if i \<in> {4, 5} then CHR ''y''
       else if i = 11 then CHR ''q'' else CHR ''s''),
     sub_iter = Suc, next_iter = (\<lambda>i. if i = 4 then Some 5 else None),
     basic_bytes = (\<lambda>i. if i = 11 then [15, 0] else [of_nat i]),
     request_made = True, appended = (\<lambda>_. True), sent_off = True, pending = True,
     reply_iter = (\<lambda>_ p. if p = ''ExtPanId'' then Some 1 else if p = ''Channel'' then Some 10 else if p = ''PanId'' then Some 20 else None), flows_off = True\<rparr>"

definition dbus_start :: "nat dbus" where
  "dbus_start = \<lparr>live = Map.empty, top = 1, replies = 0\<rparr>"

lemma dbus_example_facts: "sendable ''ExtPanId''" "sendable ''Channel''" "heap_ok dbus_start"
    "unwraps dbus_example 1 3" "unwraps dbus_example 10 11" "yields dbus_example 4 [4, 5]"
proof -
  show "sendable ''ExtPanId''" "sendable ''Channel''" "heap_ok dbus_start" by (simp_all add: sendable_def heap_ok_def dbus_start_def)
  have "unwraps dbus_example 2 3" using unwraps.here [of dbus_example 2] by (simp add: dbus_example_def is_container_def)
  then show "unwraps dbus_example 1 3" using unwraps.deeper [of dbus_example 1 3] by (simp add: dbus_example_def is_container_def numeral_2_eq_2)
  show "unwraps dbus_example 10 11" using unwraps.here [of dbus_example 10] by (simp add: dbus_example_def is_container_def)
  have "yields dbus_example 5 [5]" by (rule yields.last) (simp_all add: dbus_example_def)
  then show "yields dbus_example 4 [4, 5]" using yields.more [of dbus_example 4 4 5 "[5]"] by (simp add: dbus_example_def)
qed

theorem dbus_query_bytes_witness:
  "(\<exists>s'. query_uint8 dbus_example ''ExtPanId'' [0, 0, 9] dbus_start = Some (Inr (0, [4, 5, 9], s')) \<and> live s' = [1 \<mapsto> 1]) \<and>
   query_uint8 dbus_example ''ExtPanId'' [0] dbus_start = Some (Inl OutOfBounds)"
proof -
  have i: "delivers dbus_example ''ExtPanId'' 1" by (simp add: dbus_example_def delivers_def)
  have j: "array_bytes dbus_example 3 [4, 5]"
    using dbus_example_facts(6) by (simp add: array_bytes_def) (simp add: dbus_example_def)
  have f: "flows_off dbus_example" by (simp add: dbus_example_def)
  note query = dbus_query_bytes [OF dbus_example_facts(1,3) i dbus_example_facts(4) j]
  show ?thesis using query [of "[0, 0, 9]"] query [of "[0]"] f by (auto simp: dbus_start_def)
qed

theorem dbus_query_uint16_witness:
  "(\<exists>s'. query_uint16 dbus_example ''Channel'' [0, 0] dbus_start = Some (Inr (0, [15, 0], s'))) \<and>
   query_uint16 dbus_example ''PanId'' [0, 0] dbus_start = Some (Inl LibraryMisuse) \<and>
   query_uint16 dbus_example ''NetworkName'' [0, 0] dbus_start = Some (Inl AssertionFailed)"
proof (intro conjI)
  have i: "delivers dbus_example ''Channel'' 10" "basic_bytes dbus_example 11 = [15, 0]" "arg_type dbus_example 11 = CHR ''q''"
    by (simp_all add: dbus_example_def delivers_def)
  show "\<exists>s'. query_uint16 dbus_example ''Channel'' [0, 0] dbus_start = Some (Inr (0, [15, 0], s'))"
    using dbus_query_uint16 [OF dbus_example_facts(2,3), of "[0, 0]"] dbus_example_facts(5) i by fastforce
  have "sendable ''PanId''" "delivers dbus_example ''PanId'' 20" "\<not> is_container (arg_type dbus_example 20)"
      "arg_type dbus_example 20 \<noteq> DBUS_TYPE_INVALID"
    by (simp_all add: sendable_def dbus_example_def delivers_def is_container_def DBUS_TYPE_INVALID_def)
  then show "query_uint16 dbus_example ''PanId'' [0, 0] dbus_start = Some (Inl LibraryMisuse)"
    using dbus_query_uint16 [OF _ dbus_example_facts(3), of "''PanId''" "[0, 0]" dbus_example] by simp
  have "sendable ''NetworkName''" "\<nexists>i. delivers dbus_example ''NetworkName'' i" by (simp_all add: sendable_def dbus_example_def delivers_def)
  then show "query_uint16 dbus_example ''NetworkName'' [0, 0] dbus_start = Some (Inl AssertionFailed)"
    using dbus_query_uint16 [OF _ dbus_example_facts(3), of "''NetworkName''" "[0, 0]" dbus_example] by simp
qed

text \<open>A router: the reply to the n-th property is iterator 10 n, a variant around iterator 10 n + 1.\<close>

definition router_example :: "nat dbus_lib" where
  "router_example = \<lparr>arg_type = (\<lambda>i. if i \<in> {10, 20, 30, 40, 50, 60} then CHR ''v'' else if i \<in> {11, 21} then CHR ''q'' else if i = 31 then CHR ''t''
       else if i = 41 then CHR ''s'' else if i \<in> {51, 61} then CHR ''a'' else CHR ''y''),
     sub_iter = Suc, next_iter = (\<lambda>i. if i = 52 then Some 53 else None),
     basic_bytes = (\<lambda>i. if i \<in> {11, 21} then [of_nat i, 0] else if i = 31 then [1, 2, 3, 4, 5, 6, 7, 8] else if i = 41 then [0, 16, 0, 0, 0, 0, 0, 0] else [of_nat i]),
     request_made = True, appended = (\<lambda>_. True), sent_off = True, pending = True,
     reply_iter = (\<lambda>_ p. Some (if p = ''Channel'' then 10 else if p = ''PanId'' then 20 else if p = ''ExtPanId'' then 30 else if p = ''NetworkName'' then 40
       else if p = ''NetworkKey'' then 50 else 60)), flows_off = True\<rparr>"

lemma router_unwraps: "i \<in> {10, 20, 30, 40, 50, 60} \<Longrightarrow> unwraps router_example i (Suc i)"
  using unwraps.here [of router_example i] by (auto simp: router_example_def is_container_def)

lemma router_value:
  assumes "reply_iter router_example mInterfaceName p = Some i" "i \<in> {10, 20, 30, 40, 50, 60}"
  shows "answers router_example p (arg_type router_example (Suc i)) (basic_bytes router_example (Suc i))"
  using router_unwraps [OF assms(2)] assms(1) by (auto simp: answers_def delivers_def) (auto simp: router_example_def)

lemma router_answers:
  "answers router_example ''Channel'' (CHR ''q'') [11, 0]" "answers router_example ''PanId'' (CHR ''q'') [21, 0]"
  "answers router_example ''ExtPanId'' (CHR ''t'') [1, 2, 3, 4, 5, 6, 7, 8]" "answers router_example ''NetworkName'' (CHR ''s'') [0, 16, 0, 0, 0, 0, 0, 0]"
  using router_value [of "''Channel''" 10] router_value [of "''PanId''" 20] router_value [of "''ExtPanId''" 30] router_value [of "''NetworkName''" 40]
  by (simp_all add: router_example_def)

lemma router_bytes:
  "answers_bytes router_example ''NetworkKey'' [52, 53]" "answers_bytes router_example ''ActiveDatasetTlvs'' [62]"
proof -
  have "yields router_example 53 [53]" by (rule yields.last) (simp_all add: router_example_def)
  then have "yields router_example 52 [52, 53]" by (intro yields.more [of router_example 52 52 53]) (simp_all add: router_example_def)
  then show "answers_bytes router_example ''NetworkKey'' [52, 53]"
    using router_unwraps [of 50] unfolding answers_bytes_def by (intro exI [of _ 50] exI [of _ 51]) (simp add: router_example_def delivers_def array_bytes_def)
  have "yields router_example 62 [62]" by (rule yields.last) (simp_all add: router_example_def)
  then show "answers_bytes router_example ''ActiveDatasetTlvs'' [62]"
    using router_unwraps [of 60] unfolding answers_bytes_def by (intro exI [of _ 60] exI [of _ 61]) (simp add: router_example_def delivers_def array_bytes_def)
qed

theorem dbus_main_run_witness:
  "\<exists>v s'. dbus_main router_example (\<lambda>_. True) True 1 [7, 7] dbus_start = Inr (Some (Inr (v, s'))) \<and> channel v = [21, 0] \<and>
    take 3 (buff v) = [62, 53, 0] \<and> leaves 6 dbus_start s'"
  using dbus_main_run [OF dbus_example_facts(3), unfolded property_names, OF _ router_answers(1) _ router_answers(2) _ router_answers(3) _
      router_answers(4) _ router_bytes, of "[7, 7]" "\<lambda>_. True" True 1] by (auto simp: router_example_def)

end
