(* ===== verification/Json_C.thy ===== *)
theory Json_C
  imports Linked_List "HOL-Library.Sublist"
begin

text \<open>
  The code in the headers of json-c (\<^verbatim>\<open>ubus_example/lib/inc/json-c\<close>): the loops over the entries of a hash
  table and of an object, the fast path of the print buffer and the value of a hexadecimal digit;
  and the string comparison of \<^verbatim>\<open>ubus_common.h\<close>. The library's functions are arguments.
\<close>

section \<open>Hash tables and objects\<close>

text \<open>The entries of a table are on one list, null at both ends.\<close>

record 'v lh_entry = links +
  lh_k :: addr
  lh_v :: 'v

record lh_table =
  lh_size :: int
  lh_count :: int
  collisions :: int
  resizes :: int
  lookups :: int
  inserts :: int
  deletes :: int
  lh_name :: string
  lh_head :: addr
  lh_tail :: addr
  lh_entries :: addr
  free_fn :: addr
  hash_fn :: addr
  equal_fn :: addr

type_synonym 'v entries = "addr \<rightharpoonup> 'v lh_entry"
type_synonym ('v, 'a) entry_body = "addr \<Rightarrow> 'a \<times> 'v entries \<Rightarrow> ('a \<times> 'v entries) result"

partial_function (option) lh_loop :: "('v, 'a) entry_body \<Rightarrow> addr \<Rightarrow> 'a \<times> 'v entries \<Rightarrow> ('a \<times> 'v entries) result option" where
  "lh_loop body entry s =
     (if entry = null then Some (Inr s)
      else case bindE (body entry s) (\<lambda>s. bindE (load (snd s) entry) (\<lambda>e. Inr (next_el e, s))) of
        Inl f \<Rightarrow> Some (Inl f)
      | Inr (entry, s) \<Rightarrow> lh_loop body entry s)"

definition lh_foreach :: "lh_table \<Rightarrow> ('v, 'a) entry_body \<Rightarrow> 'a \<times> 'v entries \<Rightarrow> ('a \<times> 'v entries) result option" where
  "lh_foreach t body s = lh_loop body (lh_head t) s"

partial_function (option) lh_safe_loop :: "('v, 'a) entry_body \<Rightarrow> addr \<Rightarrow> 'a \<times> 'v entries \<Rightarrow> ('a \<times> 'v entries) result option" where
  "lh_safe_loop body entry s =
     (if entry = null then Some (Inr s)
      else case bindE (load (snd s) entry) (\<lambda>e. bindE (body entry s) (\<lambda>s. Inr (next_el e, s))) of
        Inl f \<Rightarrow> Some (Inl f)
      | Inr (tmp, s) \<Rightarrow> lh_safe_loop body tmp s)"

definition lh_foreach_safe :: "lh_table \<Rightarrow> ('v, 'a) entry_body \<Rightarrow> 'a \<times> 'v entries \<Rightarrow> ('a \<times> 'v entries) result option" where
  "lh_foreach_safe t body s = lh_safe_loop body (lh_head t) s"

text \<open>The loops over an object hand the body the key and the value; the first one has read the next entry before.\<close>

definition with_pair :: "(addr \<Rightarrow> 'v \<Rightarrow> ('v, 'a) entry_body) \<Rightarrow> ('v, 'a) entry_body" where
  "with_pair body entry s = bindE (load (snd s) entry) (\<lambda>e. body (lh_k e) (lh_v e) entry s)"

definition json_object_object_foreach :: "lh_table \<Rightarrow> (addr \<Rightarrow> 'v \<Rightarrow> ('v, 'a) entry_body) \<Rightarrow> 'a \<times> 'v entries \<Rightarrow> ('a \<times> 'v entries) result option" where
  "json_object_object_foreach t body s = lh_safe_loop (with_pair body) (lh_head t) s"

definition json_object_object_foreachC :: "lh_table \<Rightarrow> (addr \<Rightarrow> 'v \<Rightarrow> ('v, 'a) entry_body) \<Rightarrow> 'a \<times> 'v entries \<Rightarrow> ('a \<times> 'v entries) result option" where
  "json_object_object_foreachC t body s = lh_loop (with_pair body) (lh_head t) s"

lemma seg_step:
  assumes "seg h pr (p # ps) z" "null \<notin> set (p # ps)"
  obtains e where "load h p = Inr e" "next_el e = first_of ps z" "seg h p ps z"
  using assms by (auto simp: load_valid split: option.splits)

lemma lh_loop_visits:
  assumes "seg h pr ps null" "null \<notin> set ps"
    and "\<And>p a. p \<in> set ps \<Longrightarrow> body p (a, h) = Inr (f p a, h)"
  shows "lh_loop body (first_of ps null) (a, h) = Some (Inr (fold f ps a, h))"
  using assms
proof (induction ps arbitrary: pr a)
  case Nil
  then show ?case by (simp add: lh_loop.simps)
next
  case (Cons p ps)
  from Cons.prems(1,2) obtain e where "load h p = Inr e" "next_el e = first_of ps null" "seg h p ps null" by (rule seg_step)
  with Cons.IH [of p "f p a"] Cons.prems show ?case by (subst lh_loop.simps) simp
qed

lemma lh_safe_loop_visits:
  assumes "seg h pr ps null" "null \<notin> set ps"
    and "\<And>p a. p \<in> set ps \<Longrightarrow> body p (a, h) = Inr (f p a, h)"
  shows "lh_safe_loop body (first_of ps null) (a, h) = Some (Inr (fold f ps a, h))"
  using assms
proof (induction ps arbitrary: pr a)
  case Nil
  then show ?case by (simp add: lh_safe_loop.simps)
next
  case (Cons p ps)
  from Cons.prems(1,2) obtain e where "load h p = Inr e" "next_el e = first_of ps null" "seg h p ps null" by (rule seg_step)
  with Cons.IH [of p "f p a"] Cons.prems show ?case by (subst lh_safe_loop.simps) simp
qed

text \<open>A body that frees its entry after it has looked at it, and only at it.\<close>

lemma lh_safe_loop_frees:
  assumes "seg h pr ps null" "null \<notin> set ps" "distinct ps"
    and "\<And>p a h'. p \<in> set ps \<Longrightarrow> h' p = h p \<Longrightarrow> body p (a, h') = Inr (f p a, h'(p := None))"
  shows "lh_safe_loop body (first_of ps null) (a, h) = Some (Inr (fold f ps a, \<lambda>q. if q \<in> set ps then None else h q))"
  using assms
proof (induction ps arbitrary: h pr a)
  case Nil
  then show ?case by (simp add: lh_safe_loop.simps)
next
  case (Cons p ps)
  from Cons.prems(1,2) obtain e where e: "load h p = Inr e" "next_el e = first_of ps null" "seg h p ps null" by (rule seg_step)
  have "lh_safe_loop body (first_of ps null) (f p a, h(p := None)) =
    Some (Inr (fold f ps (f p a), \<lambda>q. if q \<in> set ps then None else (h(p := None)) q))"
  proof (rule Cons.IH [of _ p])
    show "seg (h(p := None)) p ps null" using e(3) Cons.prems(3) by simp
    show "body q (b, h') = Inr (f q b, h'(q := None))" if "q \<in> set ps" "h' q = (h(p := None)) q" for q b h'
      using that Cons.prems(3) by (intro Cons.prems(4)) auto
  qed (use Cons.prems in auto)
  moreover have "(\<lambda>q. if q \<in> set ps then None else (h(p := None)) q) = (\<lambda>q. if q \<in> set (p # ps) then None else h q)" by auto
  ultimately show ?case using e Cons.prems(2) Cons.prems(4) [of p h] by (subst lh_safe_loop.simps) (simp del: fun_upd_apply)
qed

lemma lh_loop_dangling:
  assumes "p \<noteq> null" "body p s = Inr s'" "snd s' p = None"
  shows "lh_loop body p s = Some (Inl DanglingDeref)"
  using assms by (subst lh_loop.simps) (simp add: load_def)

definition pair_of :: "'v entries \<Rightarrow> addr \<Rightarrow> addr \<times> 'v" where
  "pair_of h p = (lh_k (the (h p)), lh_v (the (h p)))"

definition freeing :: "(addr \<Rightarrow> 'v \<Rightarrow> 'a \<Rightarrow> 'a) \<Rightarrow> addr \<Rightarrow> 'v \<Rightarrow> ('v, 'a) entry_body" where
  "freeing g key val p s = bindE (release (snd s) p) (\<lambda>h. Inr (g key val (fst s), h))"

lemma with_pair_freeing:
  assumes "p \<noteq> null" "h p = Some e"
  shows "with_pair (freeing g) p (a, h) = Inr (g (lh_k e) (lh_v e) a, h(p := None))"
  using assms by (simp add: with_pair_def freeing_def load_valid release_def)

text \<open>
  The loops over an object end and hand the body every key with its value once, in the order of the list;
  the body of \<open>json_object_object_foreach\<close> may free each entry, and in \<open>json_object_object_foreachC\<close>
  freeing the first entry is followed by a read of it.
\<close>

theorem object_iteration:
  assumes "seg h null ps null" "null \<notin> set ps" "distinct ps" "lh_head t = first_of ps null"
  shows "json_object_object_foreach t (freeing g) (a, h) =
      Some (Inr (fold (\<lambda>p. case_prod g (pair_of h p)) ps a, \<lambda>q. if q \<in> set ps then None else h q)) \<and>
    (ps \<noteq> [] \<longrightarrow> json_object_object_foreachC t (freeing g) (a, h) = Some (Inl DanglingDeref)) \<and>
    json_object_object_foreachC t (\<lambda>key val p (a, h). Inr (g key val a, h)) (a, h) =
      Some (Inr (fold (\<lambda>p. case_prod g (pair_of h p)) ps a, h))"
proof (intro conjI impI)
  have some: "\<exists>e. h p = Some e \<and> p \<noteq> null" if "p \<in> set ps" for p
    using seg_alloc [OF assms(1) that] assms(2) that by (metis (no_types))
  have body: "with_pair (freeing g) p (a, h') = Inr (case_prod g (pair_of h p) a, h'(p := None))" if "p \<in> set ps" "h' p = h p" for p a h'
    using some [OF that(1)] that(2) by (auto simp: with_pair_freeing pair_of_def)
  show "json_object_object_foreach t (freeing g) (a, h) =
      Some (Inr (fold (\<lambda>p. case_prod g (pair_of h p)) ps a, \<lambda>q. if q \<in> set ps then None else h q))"
    unfolding json_object_object_foreach_def assms(4) by (rule lh_safe_loop_frees [OF assms(1-3) body])
  show "json_object_object_foreachC t (freeing g) (a, h) = Some (Inl DanglingDeref)" if "ps \<noteq> []"
    using that some body assms(4) by (cases ps) (auto simp: json_object_object_foreachC_def intro!: lh_loop_dangling)
  have "with_pair (\<lambda>key val p (a, h). Inr (g key val a, h)) p (a, h) = Inr (case_prod g (pair_of h p) a, h)" if "p \<in> set ps" for p a
    using some [OF that] by (auto simp: with_pair_def load_valid pair_of_def)
  then show "json_object_object_foreachC t (\<lambda>key val p (a, h). Inr (g key val a, h)) (a, h) =
      Some (Inr (fold (\<lambda>p. case_prod g (pair_of h p)) ps a, h))"
    unfolding json_object_object_foreachC_def assms(4) by (intro lh_loop_visits [OF assms(1,2)])
qed

definition two_entries :: "string entries" where
  "two_entries = [8 \<mapsto> \<lparr>next_el = 16, prev_el = null, lh_k = 1, lh_v = ''one''\<rparr>, 16 \<mapsto> \<lparr>next_el = null, prev_el = 8, lh_k = 2, lh_v = ''two''\<rparr>]"

definition two_table :: lh_table where
  "two_table = \<lparr>lh_size = 16, lh_count = 2, collisions = 0, resizes = 0, lookups = 0, inserts = 2, deletes = 0, lh_name = ''t'',
     lh_head = 8, lh_tail = 16, lh_entries = 64, free_fn = null, hash_fn = 128, equal_fn = 136\<rparr>"

theorem object_iteration_witness:
  "json_object_object_foreach two_table (freeing (\<lambda>key val a. a @ [(key, val)])) ([], two_entries) = Some (Inr ([(1, ''one''), (2, ''two'')], Map.empty)) \<and>
   json_object_object_foreachC two_table (freeing (\<lambda>key val a. a @ [(key, val)])) ([], two_entries) = Some (Inl DanglingDeref)"
  using object_iteration [of two_entries "[8, 16]" two_table "\<lambda>key val a. a @ [(key, val)]" "[]"]
  by (auto simp: two_entries_def two_table_def pair_of_def)

text \<open>
  The loops over a hash table end and visit every entry once, in order; the body of the safe one may
  free the entries, and in the plain one freeing the first entry is followed by a read of it.
\<close>

theorem lh_iteration:
  assumes "seg h null ps null" "null \<notin> set ps" "distinct ps" "lh_head t = first_of ps null"
  shows "lh_foreach t (\<lambda>p (a, h). Inr (f p a, h)) (a, h) = Some (Inr (fold f ps a, h)) \<and>
    lh_foreach_safe t (\<lambda>p (a, h). bindE (release h p) (\<lambda>h. Inr (f p a, h))) (a, h) = Some (Inr (fold f ps a, \<lambda>q. if q \<in> set ps then None else h q)) \<and>
    (ps \<noteq> [] \<longrightarrow> lh_foreach t (\<lambda>p (a, h). bindE (release h p) (\<lambda>h. Inr (f p a, h))) (a, h) = Some (Inl DanglingDeref))"
proof (intro conjI impI)
  let ?free = "\<lambda>p (a, h). bindE (release h p) (\<lambda>h. Inr (f p a, h))"
  show "lh_foreach t (\<lambda>p (a, h). Inr (f p a, h)) (a, h) = Some (Inr (fold f ps a, h))"
    using lh_loop_visits [OF assms(1,2), of "\<lambda>p (a, h). Inr (f p a, h)" f a] assms(4) by (simp add: lh_foreach_def)
  have some: "\<exists>e. h p = Some e \<and> p \<noteq> null" if "p \<in> set ps" for p
    using seg_alloc [OF assms(1) that] assms(2) that by (metis (no_types))
  have body: "?free p (a, h') = Inr (f p a, h'(p := None))" if "p \<in> set ps" "h' p = h p" for p a h'
    using some [OF that(1)] that(2) by (auto simp: release_def)
  show "lh_foreach_safe t ?free (a, h) = Some (Inr (fold f ps a, \<lambda>q. if q \<in> set ps then None else h q))"
    unfolding lh_foreach_safe_def assms(4) by (rule lh_safe_loop_frees [OF assms(1-3) body])
  show "lh_foreach t ?free (a, h) = Some (Inl DanglingDeref)" if "ps \<noteq> []"
    using that some body assms(4) by (cases ps) (auto simp: lh_foreach_def intro!: lh_loop_dangling)
qed

theorem lh_iteration_witness:
  "lh_foreach two_table (\<lambda>p (a, h). Inr (a @ [p], h)) ([], two_entries) = Some (Inr ([8, 16], two_entries))"
  using lh_iteration [of two_entries "[8, 16]" two_table "\<lambda>p a. a @ [p]" "[]"] by (auto simp: two_entries_def two_table_def)

section \<open>Print buffer\<close>

record printbuf =
  buf :: "u8 list"
  bpos :: int
  pb_size :: int

definition printbuf_length :: "printbuf \<Rightarrow> int" where
  "printbuf_length p = bpos p"

definition printbuf_memappend_fast :: "(printbuf \<Rightarrow> u8 list \<Rightarrow> printbuf) \<Rightarrow> printbuf \<Rightarrow> u8 list \<Rightarrow> printbuf result" where
  \<comment> \<open>\<open>printbuf_memappend\<close> is the library's slow path\<close>
  "printbuf_memappend_fast printbuf_memappend p bs =
     (if pb_size p - bpos p > int (length bs) then
        let n = nat (bpos p) in
        if bpos p < 0 \<or> n + length bs \<ge> length (buf p) then Inl OutOfBounds
        else Inr (p\<lparr>buf := take n (buf p) @ bs @ 0 # drop (n + length bs + 1) (buf p), bpos := bpos p + int (length bs)\<rparr>)
      else Inr (printbuf_memappend p bs))"

definition holds :: "printbuf \<Rightarrow> u8 list \<Rightarrow> bool" where
  "holds p c \<longleftrightarrow> int (length (buf p)) = pb_size p \<and> bpos p = int (length c) \<and> (\<exists>rest. buf p = c @ 0 # rest)"

text \<open>
  Appending through the fast path: when the library's own append keeps the buffer terminated and adds
  the bytes, so does the macro, whichever path it takes, and it never writes outside the buffer.
\<close>

theorem printbuf_append:
  assumes "holds p c" "\<And>p c bs. holds p c \<Longrightarrow> holds (slow p bs) (c @ bs)"
  shows "\<exists>p'. printbuf_memappend_fast slow p bs = Inr p' \<and> holds p' (c @ bs) \<and> printbuf_length p' = int (length c + length bs)"
proof (cases "pb_size p - bpos p > int (length bs)")
  case True
  moreover from assms(1) obtain rest where "buf p = c @ 0 # rest" "bpos p = int (length c)" "pb_size p = int (length (buf p))"
    by (auto simp: holds_def)
  moreover from this True have "length bs \<le> length rest" by simp
  ultimately show ?thesis by (auto simp: printbuf_memappend_fast_def holds_def printbuf_length_def Let_def)
next
  case False
  with assms show ?thesis by (auto simp: printbuf_memappend_fast_def holds_def printbuf_length_def)
qed

definition grow :: "printbuf \<Rightarrow> u8 list \<Rightarrow> printbuf" where
  "grow p bs = p\<lparr>buf := take (nat (bpos p)) (buf p) @ bs @ [0], bpos := bpos p + int (length bs), pb_size := bpos p + int (length bs) + 1\<rparr>"

lemma grow_holds: "holds p c \<Longrightarrow> holds (grow p bs) (c @ bs)"
  by (auto simp: holds_def grow_def)

theorem printbuf_append_witness:
  "\<exists>p'. printbuf_memappend_fast grow \<lparr>buf = [1, 0, 9, 9, 9], bpos = 1, pb_size = 5\<rparr> [2, 3] = Inr p' \<and> holds p' [1, 2, 3] \<and> printbuf_length p' = 3"
  using printbuf_append [of "\<lparr>buf = [1, 0, 9, 9, 9], bpos = 1, pb_size = 5\<rparr>" "[1]" grow "[2, 3]", OF _ grow_holds] by (simp add: holds_def)

section \<open>Characters and strings\<close>

definition hexdigit :: "int \<Rightarrow> int" where
  \<comment> \<open>the argument is a char, promoted to int\<close>
  "hexdigit x = (if x \<le> 57 then x - 48 else (x AND 7) + 9)"

lemma hexdigit_values:
  "map (hexdigit \<circ> of_char) ''0123456789ABCDEF'' = [0..15]" "map (hexdigit \<circ> of_char) ''0123456789abcdef'' = [0..15]"
  by (simp_all add: hexdigit_def upto_rec1)

function strmatch_loop :: "u8 list \<Rightarrow> u8 list \<Rightarrow> nat \<Rightarrow> (bool \<times> nat) result" where
  "strmatch_loop s1 s2 len =
     (if len \<ge> length s1 \<or> len \<ge> length s2 then Inl OutOfBounds
      else if s1 ! len = s2 ! len then
        if s1 ! len = 0 then Inr (True, len)
        else if len + 1 \<ge> 2 ^ 31 then Inl SignedOverflow
        else strmatch_loop s1 s2 (len + 1)
      else Inr (False, len))"
  by pat_completeness auto
termination
  by (relation "measure (\<lambda>(s1, _, len). length s1 - len)") auto

declare strmatch_loop.simps [simp del]

definition ubus_strmatch_len :: "u8 list \<Rightarrow> u8 list \<Rightarrow> (bool \<times> nat) result" where
  "ubus_strmatch_len s1 s2 = strmatch_loop s1 s2 0"

lemma strmatch_from:
  assumes "0 \<notin> set s" "0 \<notin> set t" "length pre + length s < 2 ^ 31"
  shows "strmatch_loop (pre @ s @ 0 # r) (pre @ t @ 0 # u) (length pre) = Inr (s = t, length pre + length (longest_common_prefix s t))"
  using assms
proof (induction s arbitrary: t pre)
  case Nil
  then show ?case by (subst strmatch_loop.simps) (cases t; auto simp: nth_append)
next
  case (Cons x s)
  show ?case
  proof (cases t)
    case Nil
    with Cons.prems show ?thesis by (subst strmatch_loop.simps) (auto simp: nth_append)
  next
    case t: (Cons y t')
    with Cons.prems Cons.IH [of t' "pre @ [x]"] show ?thesis
      by (subst strmatch_loop.simps) (auto simp: nth_append)
  qed
qed

text \<open>
  Comparing two terminated strings, the first shorter than an int can count, stays inside both, tells exactly whether they are equal, and reports the
  length of their longest common prefix either way.
\<close>

theorem strmatch_exact:
  assumes "0 \<notin> set s" "0 \<notin> set t" "length s < 2 ^ 31"
  shows "ubus_strmatch_len (s @ 0 # r) (t @ 0 # u) = Inr (s = t, length (longest_common_prefix s t))"
  using strmatch_from [OF assms(1,2), of "[]"] assms(3) by (simp add: ubus_strmatch_len_def)

theorem strmatch_exact_witness: "ubus_strmatch_len [5, 6, 0] [5, 7, 8, 0, 9] = Inr (False, 1)"
  using strmatch_exact [of "[5, 6]" "[5, 7, 8]" "[]" "[9]"] by simp

end
