(* ===== verification/Ubi_User.thy ===== *)
theory Ubi_User
  imports Prelude
begin

text \<open>
  The requests of the UBI devices (\<^verbatim>\<open>ubi-user.h\<close>): their structures, the sizes of those, and the numbers of
  the ioctl commands. How the kernel's macros put direction, magic, number and size into one number is
  not in the repository and an argument.
\<close>

section \<open>Requests\<close>

definition UBI_MAX_VOLUME_NAME :: nat where
  "UBI_MAX_VOLUME_NAME = 127"

definition UBI_MAX_RNVOL :: nat where
  "UBI_MAX_RNVOL = 32"

text \<open>Fixed-width integers are words; the header reads those below as signed.\<close>

record ubi_attach_req =
  att_ubi_num :: u32
  att_mtd_num :: u32
  att_vid_hdr_offset :: u32
  att_max_beb_per1024 :: u16
  att_padding :: "u8 list"

record ubi_mkvol_req =
  mk_vol_id :: u32
  mk_alignment :: u32
  mk_bytes :: u64
  mk_vol_type :: u8
  mk_padding1 :: u8
  mk_name_len :: u16
  mk_padding2 :: "u8 list"
  mk_name :: "u8 list"

record ubi_rsvol_req =
  rs_bytes :: u64
  rs_vol_id :: u32

record ubi_rnvol_ent =
  ent_vol_id :: u32
  ent_name_len :: u16
  ent_padding2 :: "u8 list"
  ent_name :: "u8 list"

record ubi_rnvol_req =
  rn_count :: u32
  rn_padding1 :: "u8 list"
  rn_ents :: "ubi_rnvol_ent list"

record ubi_leb_change_req =
  leb_lnum :: u32
  leb_bytes :: u32
  leb_dtype :: u8
  leb_padding :: "u8 list"

record ubi_map_req =
  map_lnum :: u32
  map_dtype :: u8
  map_padding :: "u8 list"

record ubi_set_vol_prop_req =
  prop_property :: u8
  prop_padding :: "u8 list"
  prop_value :: u64

section \<open>Sizes\<close>

text \<open>
  The structures are declared packed, except that of attaching, in which every field is at a multiple of its size
  so that no gap arises.
\<close>

definition sizeof_attach_req :: nat where
  "sizeof_attach_req = 4 + 4 + 4 + 2 + 10"

definition sizeof_mkvol_req :: nat where
  "sizeof_mkvol_req = 4 + 4 + 8 + 1 + 1 + 2 + 4 + (UBI_MAX_VOLUME_NAME + 1)"

definition sizeof_rsvol_req :: nat where
  "sizeof_rsvol_req = 8 + 4"

definition sizeof_rnvol_ent :: nat where
  "sizeof_rnvol_ent = 4 + 2 + 2 + (UBI_MAX_VOLUME_NAME + 1)"

definition sizeof_rnvol_req :: nat where
  "sizeof_rnvol_req = 4 + 12 + UBI_MAX_RNVOL * sizeof_rnvol_ent"

definition sizeof_leb_change_req :: nat where
  "sizeof_leb_change_req = 4 + 4 + 1 + 7"

definition sizeof_map_req :: nat where
  "sizeof_map_req = 4 + 1 + 3"

definition sizeof_set_vol_prop_req :: nat where
  "sizeof_set_vol_prop_req = 1 + 7 + 8"

lemmas sizeof_defs = sizeof_attach_req_def sizeof_mkvol_req_def sizeof_rsvol_req_def sizeof_rnvol_ent_def sizeof_rnvol_req_def
  sizeof_leb_change_req_def sizeof_map_req_def sizeof_set_vol_prop_req_def UBI_MAX_VOLUME_NAME_def UBI_MAX_RNVOL_def

section \<open>Commands\<close>

datatype ioc_dir = IOC_WRITE | IOC_READ

type_synonym ioc = "ioc_dir \<Rightarrow> nat \<Rightarrow> nat \<Rightarrow> nat \<Rightarrow> u32"

definition UBI_IOC_MAGIC :: nat where
  "UBI_IOC_MAGIC = of_char (CHR ''o'')"

definition UBI_CTRL_IOC_MAGIC :: nat where
  "UBI_CTRL_IOC_MAGIC = of_char (CHR ''o'')"

definition UBI_VOL_IOC_MAGIC :: nat where
  "UBI_VOL_IOC_MAGIC = of_char (CHR ''O'')"

text \<open>Direction, magic, number and size of a command.\<close>

type_synonym ioc_parts = "ioc_dir \<times> nat \<times> nat \<times> nat"

definition UBI_IOCMKVOL :: ioc_parts where
  "UBI_IOCMKVOL = (IOC_WRITE, UBI_IOC_MAGIC, 0, sizeof_mkvol_req)"

definition UBI_IOCRMVOL :: ioc_parts where
  "UBI_IOCRMVOL = (IOC_WRITE, UBI_IOC_MAGIC, 1, 4)"

definition UBI_IOCRSVOL :: ioc_parts where
  "UBI_IOCRSVOL = (IOC_WRITE, UBI_IOC_MAGIC, 2, sizeof_rsvol_req)"

definition UBI_IOCRNVOL :: ioc_parts where
  "UBI_IOCRNVOL = (IOC_WRITE, UBI_IOC_MAGIC, 3, sizeof_rnvol_req)"

definition UBI_IOCATT :: ioc_parts where
  "UBI_IOCATT = (IOC_WRITE, UBI_CTRL_IOC_MAGIC, 64, sizeof_attach_req)"

definition UBI_IOCDET :: ioc_parts where
  "UBI_IOCDET = (IOC_WRITE, UBI_CTRL_IOC_MAGIC, 65, 4)"

definition UBI_IOCFDET :: ioc_parts where
  "UBI_IOCFDET = (IOC_WRITE, UBI_CTRL_IOC_MAGIC, 99, 4)"

definition UBI_IOCVOLUP :: ioc_parts where
  "UBI_IOCVOLUP = (IOC_WRITE, UBI_VOL_IOC_MAGIC, 0, 8)"

definition UBI_IOCEBER :: ioc_parts where
  "UBI_IOCEBER = (IOC_WRITE, UBI_VOL_IOC_MAGIC, 1, 4)"

definition UBI_IOCEBCH :: ioc_parts where
  "UBI_IOCEBCH = (IOC_WRITE, UBI_VOL_IOC_MAGIC, 2, 4)"

definition UBI_IOCEBMAP :: ioc_parts where
  "UBI_IOCEBMAP = (IOC_WRITE, UBI_VOL_IOC_MAGIC, 3, sizeof_map_req)"

definition UBI_IOCEBUNMAP :: ioc_parts where
  "UBI_IOCEBUNMAP = (IOC_WRITE, UBI_VOL_IOC_MAGIC, 4, 4)"

definition UBI_IOCEBISMAP :: ioc_parts where
  "UBI_IOCEBISMAP = (IOC_READ, UBI_VOL_IOC_MAGIC, 5, 4)"

definition UBI_IOCSETVOLPROP :: ioc_parts where
  "UBI_IOCSETVOLPROP = (IOC_WRITE, UBI_VOL_IOC_MAGIC, 6, sizeof_set_vol_prop_req)"

definition ubi_commands :: "ioc_parts list" where
  "ubi_commands = [UBI_IOCMKVOL, UBI_IOCRMVOL, UBI_IOCRSVOL, UBI_IOCRNVOL, UBI_IOCATT, UBI_IOCDET, UBI_IOCFDET,
     UBI_IOCVOLUP, UBI_IOCEBER, UBI_IOCEBCH, UBI_IOCEBMAP, UBI_IOCEBUNMAP, UBI_IOCEBISMAP, UBI_IOCSETVOLPROP]"

definition ioctl_number :: "ioc \<Rightarrow> ioc_parts \<Rightarrow> u32" where
  "ioctl_number ioc c = (case c of (d, t, nr, sz) \<Rightarrow> ioc d t nr sz)"

text \<open>The ranges for which the kernel's macro is documented: a byte each for magic and number, 14 bits for the size.\<close>

definition in_ranges :: "ioc_parts \<Rightarrow> bool" where
  "in_ranges c = (case c of (d, t, nr, sz) \<Rightarrow> t < 256 \<and> nr < 256 \<and> sz < 2 ^ 14)"

lemmas command_defs = UBI_IOCMKVOL_def UBI_IOCRMVOL_def UBI_IOCRSVOL_def UBI_IOCRNVOL_def UBI_IOCATT_def UBI_IOCDET_def UBI_IOCFDET_def
  UBI_IOCVOLUP_def UBI_IOCEBER_def UBI_IOCEBCH_def UBI_IOCEBMAP_def UBI_IOCEBUNMAP_def UBI_IOCEBISMAP_def UBI_IOCSETVOLPROP_def
  UBI_IOC_MAGIC_def UBI_CTRL_IOC_MAGIC_def UBI_VOL_IOC_MAGIC_def

lemma commands_in_ranges: "list_all in_ranges ubi_commands"
  by (simp add: ubi_commands_def command_defs in_ranges_def sizeof_defs)

lemma commands_distinct: "distinct ubi_commands"
  by (simp add: ubi_commands_def command_defs)

text \<open>
  Every part of the 14 commands is within the range the kernel's macro has for it, the largest request,
  that of renaming with 4368 bytes, included. So if that macro keeps apart what is in range, the
  commands have 14 different numbers, although the device and the control device share one magic.
\<close>

theorem ubi_ioctl_numbers:
  assumes "\<And>c c'. in_ranges c \<Longrightarrow> in_ranges c' \<Longrightarrow> ioctl_number ioc c = ioctl_number ioc c' \<Longrightarrow> c = c'"
  shows "list_all in_ranges ubi_commands \<and> distinct (map (ioctl_number ioc) ubi_commands) \<and> sizeof_rnvol_req = 4368"
proof -
  have "inj_on (ioctl_number ioc) (set ubi_commands)"
    using assms commands_in_ranges by (auto simp: inj_on_def list_all_iff)
  then show ?thesis using commands_in_ranges commands_distinct by (simp add: distinct_map sizeof_defs)
qed

section \<open>Examples\<close>

text \<open>The encoding that most architectures use.\<close>

definition linux_ioc :: ioc where
  "linux_ioc d t nr sz = of_nat ((case d of IOC_WRITE \<Rightarrow> 1 | IOC_READ \<Rightarrow> 2) * 2 ^ 30 + sz * 2 ^ 16 + t * 2 ^ 8 + nr)"

lemma digits_inject:
  assumes "(a :: nat) * n + b = a' * n + b'" "b < n" "b' < n"
  shows "a = a' \<and> b = b'"
proof -
  have "(a * n + b) div n = a" "(a' * n + b') div n = a'" using assms(2,3) by auto
  with assms(1) show ?thesis by auto
qed

lemma of_nat_inject32: "m < 2 ^ 32 \<Longrightarrow> n < 2 ^ 32 \<Longrightarrow> (of_nat m :: u32) = of_nat n \<longleftrightarrow> m = n"
  by (simp add: unsigned_word_eqI word_unat_eq_iff unat_of_nat take_bit_nat_eq_self)

lemma linux_ioc_inject:
  assumes "in_ranges c" "in_ranges c'" "ioctl_number linux_ioc c = ioctl_number linux_ioc c'"
  shows "c = c'"
proof -
  obtain d t nr sz d' t' nr' sz' where c: "c = (d, t, nr, sz)" "c' = (d', t', nr', sz')" by (metis prod.exhaust)
  let ?d = "\<lambda>d :: ioc_dir. (case d of IOC_WRITE \<Rightarrow> 1 | IOC_READ \<Rightarrow> 2) :: nat"
  let ?n = "\<lambda>d t nr sz. ((?d d * 2 ^ 14 + sz) * 2 ^ 8 + t) * 2 ^ 8 + nr"
  have r: "t < 2 ^ 8" "nr < 2 ^ 8" "sz < 2 ^ 14" "t' < 2 ^ 8" "nr' < 2 ^ 8" "sz' < 2 ^ 14" using assms(1,2) c by (simp_all add: in_ranges_def)
  have small: "?n d t nr sz < 2 ^ 32" "?n d' t' nr' sz' < 2 ^ 32" using r by (auto split: ioc_dir.split)
  have "(of_nat (?n d t nr sz) :: u32) = of_nat (?n d' t' nr' sz')"
    using assms(3) unfolding c ioctl_number_def linux_ioc_def by (simp add: algebra_simps)
  then have "?n d t nr sz = ?n d' t' nr' sz'" using small by (simp only: of_nat_inject32)
  note 1 = digits_inject [OF this r(2,5)]
  note 2 = digits_inject [OF conjunct1 [OF 1] r(1,4)]
  note 3 = digits_inject [OF conjunct1 [OF 2] r(3,6)]
  have "d = d'" using conjunct1 [OF 3] by (simp split: ioc_dir.splits)
  with 1 2 3 show ?thesis unfolding c by blast
qed

theorem ubi_ioctl_numbers_witness: "distinct (map (ioctl_number linux_ioc) ubi_commands)"
  using ubi_ioctl_numbers [OF linux_ioc_inject] by blast

end
