(* ===== verification/Ustream.thy ===== *)
theory Ustream
  imports Prelude
begin

unbundle bit_operations_syntax

text \<open>
  Buffered streams of libubox (\<^verbatim>\<open>ustream.h\<close>): the structures and the functions that the header defines. The
  four pointers of a buffer are offsets into its allocation; the callbacks of a stream are addresses of
  functions, called through an argument, as is the event loop's timer.
\<close>

section \<open>Structures\<close>

record ustream_buf =
  us_next :: addr
  us_data :: nat
  us_tail :: nat
  us_end :: nat
  us_head :: nat

record ustream_buf_list =
  bl_head :: addr
  bl_data_tail :: addr
  bl_tail :: addr
  bl_alloc :: addr
  data_bytes :: int
  min_buffers :: int
  max_buffers :: int
  buffer_len :: int
  buffers :: int

record uloop_timeout =
  to_list :: "addr \<times> addr"
  to_pending :: bool
  to_cb :: addr
  to_time :: "int \<times> int"

definition READ_BLOCKED_USER :: u32 where
  "READ_BLOCKED_USER = push_bit 0 1"

definition READ_BLOCKED_FULL :: u32 where
  "READ_BLOCKED_FULL = push_bit 1 1"

record ustream =
  us_r :: ustream_buf_list
  us_w :: ustream_buf_list
  state_change :: uloop_timeout
  stream_next :: addr
  notify_read :: addr
  notify_write :: addr
  notify_state :: addr
  us_write :: addr
  us_free :: addr
  set_read_blocked :: addr
  us_poll :: addr
  string_data :: bool
  write_error :: bool
  us_eof :: bool
  eof_write_done :: bool
  read_blocked :: u32

section \<open>Functions\<close>

definition ustream_read_blocked :: "ustream \<Rightarrow> bool" where
  "ustream_read_blocked s \<longleftrightarrow> read_blocked s AND READ_BLOCKED_USER \<noteq> 0"

definition ustream_pending_data :: "ustream \<Rightarrow> bool \<Rightarrow> int" where
  "ustream_pending_data s write = data_bytes (if write then us_w s else us_r s)"

definition ustream_read_buf_full :: "(addr \<rightharpoonup> ustream_buf) \<Rightarrow> ustream \<Rightarrow> bool result" where
  "ustream_read_buf_full h s =
     (let b = bl_data_tail (us_r s) in
      if b = null then Inr False
      else bindE (load h b) (\<lambda>buf.
        Inr (us_data buf = us_head buf \<and> us_tail buf = us_end buf \<and> buffers (us_r s) = max_buffers (us_r s))))"

definition ustream_state_change :: "(uloop_timeout \<Rightarrow> int \<Rightarrow> uloop_timeout) \<Rightarrow> ustream \<Rightarrow> ustream" where
  "ustream_state_change uloop_timeout_set s = s\<lparr>state_change := uloop_timeout_set (state_change s) 0\<rparr>"

definition ustream_poll :: "(addr \<Rightarrow> ustream \<Rightarrow> bool \<times> ustream) \<Rightarrow> ustream \<Rightarrow> bool \<times> ustream" where
  "ustream_poll call s = (if us_poll s = null then (False, s) else call (us_poll s) s)"

section \<open>When reading stops\<close>

text \<open>
  A buffer in order, and the room for further bytes that it has once its data is moved to its start.
\<close>

definition buf_ok :: "ustream_buf \<Rightarrow> bool" where
  "buf_ok b \<longleftrightarrow> us_head b \<le> us_data b \<and> us_data b \<le> us_tail b \<and> us_tail b \<le> us_end b"

definition room :: "ustream_buf \<Rightarrow> nat" where
  "room b = (us_end b - us_head b) - (us_tail b - us_data b)"

text \<open>The bytes that a stream can still take: those of the last buffer with data and those of the buffers it may add.\<close>

definition capacity :: "(addr \<rightharpoonup> ustream_buf) \<Rightarrow> ustream \<Rightarrow> int" where
  "capacity h s = (case h (bl_data_tail (us_r s)) of None \<Rightarrow> 0 | Some b \<Rightarrow> int (room b)) +
     (max_buffers (us_r s) - buffers (us_r s)) * buffer_len (us_r s)"

lemma room_zero: "buf_ok b \<Longrightarrow> room b = 0 \<longleftrightarrow> us_data b = us_head b \<and> us_tail b = us_end b"
  by (auto simp: buf_ok_def room_def)

lemma user_bit: "(x :: u32) AND READ_BLOCKED_USER \<noteq> 0 \<longleftrightarrow> bit x 0"
  by (simp add: READ_BLOCKED_USER_def and_one_eq bit_0 odd_iff_mod_2_eq_one)

lemma flag_bits: "bit READ_BLOCKED_USER 0" "\<not> bit READ_BLOCKED_FULL 0"
  by (simp_all add: READ_BLOCKED_USER_def READ_BLOCKED_FULL_def bit_0)

text \<open>
  A reader's buffer is full exactly when the stream can take no further byte: the last buffer with data has
  no room, not even after its data is moved to its start, and no buffer may be added. Without such a buffer
  it is not full. That the buffer is full blocks nothing that the user asked for: the user's flag is read
  alone.
\<close>

theorem ustream_full_exact:
  assumes "bl_data_tail (us_r s) = null \<or> h (bl_data_tail (us_r s)) = Some b \<and> buf_ok b"
    and "0 < buffer_len (us_r s)" "buffers (us_r s) \<le> max_buffers (us_r s)"
  shows "ustream_read_buf_full h s = Inr (bl_data_tail (us_r s) \<noteq> null \<and> capacity h s = 0) \<and>
    ustream_read_blocked (s\<lparr>read_blocked := read_blocked s OR READ_BLOCKED_FULL\<rparr>) = ustream_read_blocked s \<and>
    ustream_read_blocked (s\<lparr>read_blocked := read_blocked s OR READ_BLOCKED_USER\<rparr>) \<and>
    \<not> ustream_read_blocked (s\<lparr>read_blocked := read_blocked s AND NOT READ_BLOCKED_USER\<rparr>)"
proof -
  have sum: "int r + (m - n) * l = 0 \<longleftrightarrow> r = 0 \<and> n = m" if "0 < l" "n \<le> m" for r and m n l :: int
  proof -
    have "0 \<le> (m - n) * l" using that by simp
    then have "int r + (m - n) * l = 0 \<longleftrightarrow> int r = 0 \<and> (m - n) * l = 0" by linarith
    then show ?thesis using that by auto
  qed
  have "ustream_read_buf_full h s = Inr (bl_data_tail (us_r s) \<noteq> null \<and> capacity h s = 0)"
    using assms(1) by (auto simp: ustream_read_buf_full_def capacity_def load_valid room_zero sum [OF assms(2,3)] Let_def)
  then show ?thesis unfolding ustream_read_blocked_def user_bit
    by (simp add: flag_bits bit_or_iff bit_and_iff bit_not_iff)
qed

definition stream_example :: ustream where
  "stream_example = (let l = \<lparr>bl_head = 8, bl_data_tail = 8, bl_tail = 8, bl_alloc = 64, data_bytes = 3, min_buffers = 1, max_buffers = 1, buffer_len = 4, buffers = 1\<rparr> in
     \<lparr>us_r = l, us_w = l, state_change = \<lparr>to_list = (null, null), to_pending = False, to_cb = 72, to_time = (0, 0)\<rparr>, stream_next = null, notify_read = null, notify_write = null,
      notify_state = null, us_write = 80, us_free = null, set_read_blocked = null, us_poll = null, string_data = False, write_error = False,
      us_eof = False, eof_write_done = False, read_blocked = 0\<rparr>)"

text \<open>Three of four bytes in use, at the end of the buffer: there is room, after moving them.\<close>

theorem ustream_full_exact_witness:
  "ustream_read_buf_full [8 \<mapsto> \<lparr>us_next = null, us_data = 1, us_tail = 4, us_end = 4, us_head = 0\<rparr>] stream_example = Inr False"
  using ustream_full_exact [of stream_example "[8 \<mapsto> \<lparr>us_next = null, us_data = 1, us_tail = 4, us_end = 4, us_head = 0\<rparr>]"
      "\<lparr>us_next = null, us_data = 1, us_tail = 4, us_end = 4, us_head = 0\<rparr>"]
  by (simp add: stream_example_def buf_ok_def capacity_def room_def Let_def)

end
