(* ===== verification/Spec2Isabelle.thy ===== *)
theory Spec2Isabelle
  imports Device_Registry Join_Queue Server_Runs Tcp_Client Udp_Server Ubox_Containers Ubus_Client Mdns_Resolver Dbus Json_C Ubi_User Ustream
begin

text \<open>
  A verification of the example programs of this repository and of the C library code they build on.

  \<^bold>\<open>The parts.\<close> The repository holds small programs from the surroundings of a Matter gateway:

  \<^item> \<^verbatim>\<open>devices_struct/DeviceDefine.h\<close>, the gateway's picture of its devices: nodes with endpoints, clusters and
    attributes, the join progress packed into one word, a registry of nodes by MAC address and a
    doubly linked queue of the nodes that are joining, polled in turn;
  \<^item> \<^verbatim>\<open>linux_socket_example\<close>, a TCP server in three variants (\<^verbatim>\<open>select\<close>, \<^verbatim>\<open>poll\<close>, \<^verbatim>\<open>epoll\<close>) around one table of
    clients, a TCP client in two variants, and a UDP relay;
  \<^item> \<^verbatim>\<open>ubus_example\<close>, a server and a client on the ubus message bus, with the headers of libubox and libubus
    they are compiled against, which contain code of their own: lists, ordered trees, byte order,
    binary messages;
  \<^item> \<^verbatim>\<open>mdns_parse_example\<close>, a receiver of mDNS packets for the Matter SDK;
  \<^item> \<^verbatim>\<open>dbus_example\<close>, a client that reads the properties of a Thread border router over D-Bus.

  The programs do not call each other; within \<^verbatim>\<open>ubus_example\<close> the server answers the client through
  messages that both build and read with libubox.

  \<^bold>\<open>How the code is modelled.\<close> \<open>Prelude\<close> has the vocabulary: machine integers are words, pointers are
  addresses into partial maps, and whatever C leaves undefined is a value of type \<open>fault\<close> (null or
  dangling dereference, index out of bounds, double free, signed overflow, a library call outside
  its preconditions, a function that ends without its return value) or a failed assertion, and ends the computation.
  Three undefined steps commonly go on in practice: looking up descriptor -1 in a set (\<open>stray\<close>), flowing off the end
  of a function (\<open>flows_off\<close>), printing a released string (\<open>readable\<close>). Whether they go on, and with what answer, is an argument, and
  the theorems cover every value of it. Structs are records, operations are functions from
  state to a result or a fault. System calls and libraries are not made up: their answers are
  arguments, and what a theorem needs of them is a named hypothesis. A loop that may run for ever is
  a partial function whose value \<open>None\<close> means that it does not return; loops without end that serve
  requests are cut after a list of passes, one per element of the list of answers, so no fuel bounds
  what is proved.

  \<^bold>\<open>Theories.\<close>

  \<^item> \<open>Join_Stage\<close>: the join word of \<^verbatim>\<open>Node\<close>, all getters and setters. Any history of calls acts as on three
    separate fields; which sets of reported events complete a stage.
  \<^item> \<open>Device_Model\<close>: \<^verbatim>\<open>Attribute\<close>, \<^verbatim>\<open>Cluster\<close>, \<^verbatim>\<open>EndpointType\<close>, \<^verbatim>\<open>Node\<close>. What is written is what is found, nothing
    else changes, unique identifiers are kept, duplicates are shadowed.
  \<^item> \<open>Device_Registry\<close>: \<^verbatim>\<open>Devices\<close>, an ordered map from MAC to node. The laws of a map, and the search by node.
  \<^item> \<open>Linked_List\<close>: doubly linked segments and the contract of a list used as a queue, a locale that
    \<open>Join_Queue\<close> and \<open>Ubox_List\<close> interpret. The vectors of \<open>Device_Model\<close> share the locale of \<open>Prelude\<close> for
    first-match search.
  \<^item> \<open>Join_Queue\<close>: \<^verbatim>\<open>JoinRingQueue\<close> on an explicit heap. Every reachable queue represents the expected
    sequence; which operations can fault and exactly when; first in, first out; which elements
    polling reaches.
  \<^item> \<open>Socket_Base\<close>, \<open>Client_Table\<close>, \<open>Select_Server\<close>, \<open>Poll_Server\<close>, \<open>Epoll_Server\<close>: \<^verbatim>\<open>server.c\<close>. The table after each pass, slot by slot,
    and exactly when a pass faults or exits; capacity; which descriptors are closed; that the epoll server watches
    exactly the clients that connected and have not hung up, and what the first failing call ends. \<open>Client_Table\<close> has what
    the first two servers' tables share.
  \<^item> \<open>Server_Runs\<close>: whole runs of the \<^verbatim>\<open>select\<close> and \<^verbatim>\<open>poll\<close> servers from start-up refine those of an abstract table, by a
    locale that both interpret; told the same by the system, the two end with the same table as long as the
    first does not stop.
  \<^item> \<open>Tcp_Client\<close>, \<open>Udp_Server\<close>: \<^verbatim>\<open>client_nonblocking.c\<close> and \<^verbatim>\<open>udp_blocking.c\<close>, connection procedures on every branch, what is
    received, dumped and passed on.
  \<^item> \<open>Ubox_List\<close>, \<open>Avl\<close>, \<open>Ubox_Containers\<close>: \<^verbatim>\<open>list.h\<close>, \<^verbatim>\<open>avl.h\<close>, \<^verbatim>\<open>vlist.h\<close>, \<^verbatim>\<open>kvlist.h\<close>, \<^verbatim>\<open>safe_list.h\<close>, \<^verbatim>\<open>runqueue.h\<close>. The operations refine
    those on sequences; every loop visits its range once and ends; what happens when the body removes
    what it visits.
  \<^item> \<open>Byte_Order\<close>, \<open>Blob\<close>: \<^verbatim>\<open>utils.h\<close>, \<^verbatim>\<open>blob.h\<close>, \<^verbatim>\<open>blobmsg.h\<close>, \<^verbatim>\<open>blobmsg_json.h\<close> on a byte buffer, on hosts of either byte order. Encoding and
    walking are inverse, walking over arbitrary bytes stays in the buffer, what a builder adds the
    accessors give back.
  \<^item> \<open>Libubus\<close>, \<open>Ubus_Server\<close>, \<open>Ubus_Client\<close>: \<^verbatim>\<open>libubus.h\<close>, \<^verbatim>\<open>ubusmsg.h\<close> and the two programs. The loop over access-control
    entries, reconnection, the reply, the conversation that collects the network's properties.
  \<^item> \<open>Json_C\<close>: the macros of \<^verbatim>\<open>json-c\<close> that are code, and \<^verbatim>\<open>ubus_common.h\<close>. The loops over an object visit every pair
    once, which of them allow the body to free an entry; appending keeps a buffer terminated; string
    comparison finds the longest common prefix.
  \<^item> \<open>Mdns\<close>, \<open>Mdns_Resolver\<close>: \<^verbatim>\<open>MdnsParser\<close>, \<^verbatim>\<open>MdnsMessage\<close>, \<^verbatim>\<open>MDNSResolve\<close>. What a packet adds up to, which report
    follows, which packets make it fault, and what a receiver logs after its set-up over any number of packets.
  \<^item> \<open>Dbus\<close>: \<^verbatim>\<open>DbusInitiator\<close>. Reading nested values into a buffer, which iterators stay allocated, what failed assertions and missing
    return values end, and the whole program against a router that answers as documented.
  \<^item> \<open>Ubi_User\<close>: \<^verbatim>\<open>ubi-user.h\<close>. The structures of the requests, and that the commands have different numbers.
  \<^item> \<open>Ustream\<close>: \<^verbatim>\<open>ustream.h\<close>. When a reader's buffer is full.
  \<^item> this theory: what spans the ubus programs.

  \<^bold>\<open>Not modelled.\<close> The functions that the vendored headers only declare, since their source is not here:
  insertion and search in trees, the message builder and parser, ubus itself. The rest of those
  headers has no code: \<^verbatim>\<open>ubi-media.h\<close>, most of \<^verbatim>\<open>json-c\<close>, \<^verbatim>\<open>uclient.h\<close>, \<^verbatim>\<open>md5.h\<close> and others declare structures and functions that the
  programs here use through a call or not at all. \<^verbatim>\<open>lib/libubus.h\<close> is a copy of \<^verbatim>\<open>lib/inc/libubus.h\<close>.
  Locks, and the interleaving of threads that they
  would order: no thread is started in the repository. Printing, except where it is what a function
  is for (the dump of received data, the messages of the ubus programs) or reads memory that it may not read. The
  logging of the Matter SDK. Allocation failure. The
  makefile templates.
\<close>

section \<open>A call over ubus\<close>

lemma single_field_walk:
  assumes "wf_field ty name data" "mem = encode_attr (field_attr ty name data)"
  shows "blob_walk bo mem 0 (of_nat (length mem)) = Inr [0]"
proof -
  have mem: "mem = [] @ encode_attr (field_attr ty name data) @ []" using assms(2) by simp
  obtain n where n: "blob_pad_len bo mem 0 = Inr n" "unat n = length mem"
    using encoded_pad_len [OF wf_field_attr [OF assms(1)], of bo "[]" "[]"] assms(2) by auto
  have "(of_nat (unat n) :: u32) = n" by simp
  then have "(of_nat (length mem) :: u32) = n" using n(2) by simp
  moreover have "n \<ge> 4" using n(2) mem by (simp add: word_le_nat_alt length_encode_attr)
  ultimately show ?thesis
    using blob_walk_step [of n bo mem 0 n] n(1) by (simp add: blob_walk.simps [of bo _ _ 0])
qed

text \<open>
  C11. The call that the client makes and the server answers, each on a host of either byte order. The client
  looks up the object and invokes the method under the names that the server registers for its handler. Its request, walked over
  where the server runs, holds one string field, \<^verbatim>\<open>mac\<close>, with the address given in the source; that field is not
  one that the method's policy declares. The handler, called with this very request, sends one reply, and that
  gives under the same name \<^verbatim>\<open>mac\<close> the string \<^verbatim>\<open>bufstr\<close> rather than the address that was asked for. The client's callback
  prints the reply if it can be formatted, and otherwise prints through a null pointer. If the object is not found the client
  returns the error and makes no call; if there is no connection it looks the object up through a null context.
\<close>

theorem ubus_exchange:
  assumes "builds_messages lib"
  shows "(\<exists>m h req reply s'. m \<in> set (methods (uproto_object (uproto_get_devinfo server lib))) \<and> handler m = Some h \<and>
      ubus_client_main lib True 0 i zero =
        Inr (0, [Connect, LookupId (object_name (uproto_object (uproto_get_devinfo server lib))), InvokeFd i (method_name m) req 1000 (- 1)]) \<and>
      blob_walk server req 0 (of_nat (length req)) = Inr [0] \<and> blobmsg_type_of server req 0 = Inr 3 \<and>
      c_string req (blobmsg_name 0) = Inr (bytes_of ''mac'') \<and>
      at_data server req (Some 0) (c_string req) = Inr (bytes_of ''00158D00029F703F'') \<and>
      ''mac'' \<notin> set (map policy_name (policy m)) \<and>
      h req s = (0, s') \<and> calls s' = calls s @ [SendReply reply] \<and>
      c_string reply (blobmsg_name 0) = Inr (bytes_of ''mac'') \<and> at_data client reply (Some 0) (c_string reply) = Inr (bytes_of ''bufstr'') \<and>
      scanreq_prog_cb jlib (Some reply) = (case format_with_cb jlib reply True null null 0 of None \<Rightarrow> Inl NullDeref | Some str \<Rightarrow> Inr [str])) \<and>
    (ret \<noteq> 0 \<longrightarrow> ubus_client_main lib True ret i zero = Inr (ret, [Connect, LookupId ''objectname''])) \<and>
    ubus_client_main lib False ret i zero = Inl LibraryMisuse"
proof -
  let ?name = "bytes_of ''mac''" and ?data = "bytes_of ''00158D00029F703F'' @ [0]"
  let ?req = "encode_attr (field_attr 3 ?name ?data)" and ?reply = "concat (map encode_attr reply_fields)"
  have wf: "wf_field 3 ?name ?data" by (simp add: wf_field_def)
  have req: "?req = [] @ ?req @ []" by simp
  have "add_field lib [] 3 ?name ?data = (0, ?req)" "\<And>buf n. snd (buf_init lib buf n) = []"
    using assms wf by (simp_all add: builds_messages_def appends_fields_def del: bytes_of_simps)
  then have call: "ubus_client_main lib True 0 i zero = Inr (0, [Connect, LookupId ''objectname'', InvokeFd i ''methodname'' ?req 1000 (- 1)])"
    by (simp add: ubus_client_main_def blobmsg_add_string_def ubus_invoke_def Let_def del: bytes_of_simps)
  have walk: "blob_walk server ?req 0 (of_nat (length ?req)) = Inr [0]"
    by (rule single_field_walk [OF wf refl])
  note acc = field_access [OF wf req refl refl]
  obtain u v where "?req = u @ ?data @ v" "length u = 4 + 4 * ((length ?name + 6) div 4)" using acc(5) by auto
  then have mac: "at_data server ?req (Some 0) (c_string ?req) = Inr (bytes_of ''00158D00029F703F'')"
    using acc(3) [of server] c_string_at [of "bytes_of ''00158D00029F703F''" u v] by (simp add: at_data_def)
  have printed: "scanreq_prog_cb jlib (Some ?reply) = (case format_with_cb jlib ?reply True null null 0 of None \<Rightarrow> Inl NullDeref | Some str \<Rightarrow> Inr [str])"
    by (simp add: scanreq_prog_cb_def print_string_def blobmsg_format_json_indent_def split: option.split)
  have errors: "ret \<noteq> 0 \<longrightarrow> ubus_client_main lib True ret i zero = Inr (ret, [Connect, LookupId ''objectname''])"
      "ubus_client_main lib False ret i zero = Inl LibraryMisuse"
    by (simp_all add: ubus_client_main_def)
  show ?thesis
    using call walk mac acc(1) [of server] acc(2) devinfo_buffer [OF assms, of server ?req s] reply_content(2) reply_content(3) [of client] printed errors
    by (intro conjI exI [of _ "hd (methods (uproto_object (uproto_get_devinfo server lib)))"] exI [of _ "uproto_get_devinfo server lib"]
        exI [of _ ?req] exI [of _ ?reply] exI [of _ "snd (uproto_get_devinfo server lib ?req s)"])
      (simp_all add: uproto_object_def uproto_methods_def devinfo_policy_def del: bytes_of_simps)
qed

theorem ubus_exchange_witness:
  "\<exists>req reply s'. ubus_client_main \<lparr>format_json_with_cb = \<lambda>(_ :: u8 list) _ _ _ _. None, buf_init = \<lambda>buf i. (0, []),
      add_field = \<lambda>buf ty name data. (0, buf @ encode_attr (field_attr ty name data))\<rparr> True 0 7 [] =
    Inr (0, [Connect, LookupId ''objectname'', InvokeFd 7 ''methodname'' req 1000 (- 1)]) \<and> c_string req (blobmsg_name 0) = Inr (bytes_of ''mac'') \<and>
    uproto_get_devinfo Big \<lparr>format_json_with_cb = \<lambda>(_ :: u8 list) _ _ _ _. None, buf_init = \<lambda>buf i. (0, []),
      add_field = \<lambda>buf ty name data. (0, buf @ encode_attr (field_attr ty name data))\<rparr> req \<lparr>b = [], calls = []\<rparr> = (0, s') \<and>
    calls s' = [SendReply reply] \<and>
    scanreq_prog_cb \<lparr>format_with_cb = \<lambda>_ _ _ _ _. Some ''{}'', tokener_parse = \<lambda>_. None, object_get = \<lambda>_ _. None, get_int = \<lambda>_ :: unit. 0, get_string = \<lambda>_. []\<rparr>
      (Some reply) = Inr [''{}'']"
proof -
  have "builds_messages \<lparr>format_json_with_cb = \<lambda>(_ :: u8 list) _ _ _ _. None, buf_init = \<lambda>buf i. (0, []),
      add_field = \<lambda>buf ty name data. (0, buf @ encode_attr (field_attr ty name data))\<rparr>"
    by (simp add: builds_messages_def appends_fields_def)
  from ubus_exchange [OF this, where server = Big and client = Little and i = 7 and zero = "[]" and s = "\<lparr>b = [], calls = []\<rparr>"
      and ret = 0 and jlib = "\<lparr>format_with_cb = \<lambda>_ _ _ _ _. Some ''{}'', tokener_parse = \<lambda>_. None, object_get = \<lambda>_ _. None, get_int = \<lambda>_ :: unit. 0, get_string = \<lambda>_. []\<rparr>"]
  show ?thesis by (fastforce simp: uproto_object_def uproto_methods_def)
qed

end
